theory Spec2Isabelle
  imports Complex_Main "HOL-Library.AList" "HOL-Library.Multiset" "HOL-Library.Sublist"
begin

section \<open>JavaScript numbers and errors\<close>

text \<open>
  A JavaScript \<^verbatim>\<open>number\<close> is an IEEE-754 double. The model abstracts it to an exact
  real or \<open>NaN\<close>: comparisons with \<open>NaN\<close> are false and arithmetic on \<open>NaN\<close> gives
  \<open>NaN\<close>, as in the language. Rounding and the two infinities are not modelled.
\<close>

datatype jsnum = NaN | Num real

fun js_ge :: "jsnum \<Rightarrow> jsnum \<Rightarrow> bool" where
  "js_ge (Num x) (Num y) = (x \<ge> y)"
| "js_ge _ _ = False"

fun js_gt :: "jsnum \<Rightarrow> jsnum \<Rightarrow> bool" where
  "js_gt (Num x) (Num y) = (x > y)"
| "js_gt _ _ = False"

fun js_add :: "jsnum \<Rightarrow> jsnum \<Rightarrow> jsnum" where
  "js_add (Num x) (Num y) = Num (x + y)"
| "js_add _ _ = NaN"

fun js_sub :: "jsnum \<Rightarrow> jsnum \<Rightarrow> jsnum" where
  "js_sub (Num x) (Num y) = Num (x - y)"
| "js_sub _ _ = NaN"


text \<open>Division by a positive count (an array length that is known to be non-zero).\<close>

fun js_div_count :: "jsnum \<Rightarrow> nat \<Rightarrow> jsnum" where
  "js_div_count (Num x) n = Num (x / real n)"
| "js_div_count NaN n = NaN"



text \<open>
  Every error of the source is a \<^verbatim>\<open>new Error(message)\<close>; one constructor stands for each
  message template, carrying the template's parameters.
  \<^item> \<open>ProviderError m\<close>: a rejection of the Ollama client itself, with its message;
  \<^item> \<open>BatchRequestTimeout\<close>: \<^verbatim>\<open>'Batch request timeout'\<close>;
  \<^item> \<open>BatchLengthMismatch n k\<close>: \<^verbatim>\<open>`Expected ${n} embeddings, got ${k}`\<close>;
  \<^item> \<open>RetryExhausted n e\<close>: \<^verbatim>\<open>`Operation failed after ${n} attempts: ${e.message}`\<close>;
  \<^item> \<open>EmbeddingNotFound i\<close>: \<^verbatim>\<open>`No embedding found for memory ${i}`\<close>;
  \<^item> \<open>TypeError_undefined\<close>: the runtime's TypeError for reading a property of
    \<^verbatim>\<open>undefined\<close>.
\<close>

datatype error =
    ProviderError string
  | BatchRequestTimeout
  | BatchLengthMismatch nat nat
  | RetryExhausted int error
  | EmbeddingNotFound string
  | TypeError_undefined

type_synonym embedding = "jsnum list"

section \<open>The embedding cache\<close>

text \<open>
  \<^verbatim>\<open>MemoryEmbeddingCache\<close> holds a JavaScript \<^verbatim>\<open>Map\<close>, which iterates in insertion
  order: an association list with distinct keys, oldest insertion first. \<^verbatim>\<open>Date.now()\<close>
  is the parameter \<open>now\<close>.
\<close>

record CacheEntry =
  entry_embedding :: embedding
  timestamp :: int

record MemoryEmbeddingCache =
  cache_map :: "(string \<times> CacheEntry) list"
  maxSize :: int
  ttl :: int

definition MemoryEmbeddingCache_new :: "MemoryEmbeddingCache" where
  "MemoryEmbeddingCache_new = \<lparr>cache_map = [], maxSize = 1000, ttl = 3600000\<rparr>"

definition MemoryEmbeddingCache_get ::
  "int \<Rightarrow> string \<Rightarrow> MemoryEmbeddingCache \<Rightarrow> MemoryEmbeddingCache \<times> embedding option" where
  "MemoryEmbeddingCache_get now key c =
     (case map_of (cache_map c) key of
        None \<Rightarrow> (c, None)
      | Some cached \<Rightarrow>
          if now - timestamp cached > ttl c
          then (c\<lparr>cache_map := AList.delete key (cache_map c)\<rparr>, None)
          else (c, Some (entry_embedding cached)))"

definition MemoryEmbeddingCache_set ::
  "int \<Rightarrow> string \<Rightarrow> embedding \<Rightarrow> MemoryEmbeddingCache \<Rightarrow> MemoryEmbeddingCache" where
  "MemoryEmbeddingCache_set now key emb c =
     (let c1 =
        (if int (length (cache_map c)) \<ge> maxSize c
         then (case cache_map c of
                 [] \<Rightarrow> c
               | (oldestKey, _) # _ \<Rightarrow>
                   if oldestKey \<noteq> [] then c\<lparr>cache_map := AList.delete oldestKey (cache_map c)\<rparr> else c)
         else c)
      in c1\<lparr>cache_map := AList.update key \<lparr>entry_embedding = emb, timestamp = now\<rparr> (cache_map c1)\<rparr>)"

section \<open>The provider base class\<close>

record EmbeddingConfig =
  provider :: string
  model :: string
  host :: "string option"
  batchSize :: "int option"
  maxRetries :: "int option"
  timeoutMs :: "int option"
  cacheEnabled :: "bool option"

text \<open>\<^verbatim>\<open>`${provider}:${model || 'default'}:${text}`\<close>: the empty model name is falsy.\<close>

definition getCacheKey :: "'a EmbeddingConfig_scheme \<Rightarrow> string \<Rightarrow> string" where
  "getCacheKey cfg txt =
     provider cfg @ '':'' @ (if model cfg = [] then ''default'' else model cfg)
       @ '':'' @ txt"

subsection \<open>retryWithBackoff\<close>

text \<open>
  The wrapped operation is a closure that may answer differently each time it is called:
  \<open>operation k\<close> is its answer when \<open>k\<close> calls were made before. A run returns the
  outcome, the number of calls made and the delays slept.
\<close>

record 'a RetryRun =
  outcome :: "error + 'a"
  calls :: nat
  slept :: "int list"

text \<open>
  The statement after the loop:
  \<^verbatim>\<open>throw new Error(`Operation failed after ${maxRetries} attempts: ${lastError!.message}`)\<close>.
  \<open>lastError\<close> is declared without a value, so it is \<^verbatim>\<open>undefined\<close> until a catch
  assigns it, and reading \<^verbatim>\<open>.message\<close> of \<^verbatim>\<open>undefined\<close> throws a TypeError.
\<close>

definition retry_throw :: "int \<Rightarrow> error option \<Rightarrow> error" where
  "retry_throw maxRetries' lastError =
     (case lastError of
        None \<Rightarrow> TypeError_undefined
      | Some e \<Rightarrow> RetryExhausted maxRetries' e)"

function retry_loop ::
  "(nat \<Rightarrow> error + 'a) \<Rightarrow> int \<Rightarrow> int \<Rightarrow> int \<Rightarrow> error option \<Rightarrow> nat \<Rightarrow> int list \<Rightarrow> 'a RetryRun" where
  "retry_loop operation maxRetries' baseDelay attempt lastError made delays =
     (if attempt \<le> maxRetries' then
        (case operation made of
           Inr v \<Rightarrow> \<lparr>outcome = Inr v, calls = Suc made, slept = delays\<rparr>
         | Inl e \<Rightarrow>
             if attempt = maxRetries'
             then \<lparr>outcome = Inl (retry_throw maxRetries' (Some e)), calls = Suc made,
                    slept = delays\<rparr>
             else retry_loop operation maxRetries' baseDelay (attempt + 1) (Some e) (Suc made)
                    (delays @ [min (baseDelay * 2 ^ nat (attempt - 1)) 10000]))
      else \<lparr>outcome = Inl (retry_throw maxRetries' lastError), calls = made, slept = delays\<rparr>)"
  by pat_completeness auto
termination
  by (relation "measure (\<lambda>(operation, maxRetries', baseDelay, attempt, lastError, made, delays).
        nat (maxRetries' + 1 - attempt))") auto

declare retry_loop.simps [simp del]

definition retryWithBackoff ::
  "(nat \<Rightarrow> error + 'a) \<Rightarrow> int option \<Rightarrow> int option \<Rightarrow> 'a RetryRun" where
  "retryWithBackoff operation maxRetries' baseDelay =
     retry_loop operation (case maxRetries' of None \<Rightarrow> 3 | Some m \<Rightarrow> m)
       (case baseDelay of None \<Rightarrow> 1000 | Some d \<Rightarrow> d) 1 None 0 []"

section \<open>The Ollama provider\<close>

text \<open>
  The answer of \<^verbatim>\<open>ollama.embed\<close>, raced against the timeout: an error (the client's
  rejection or the timeout) or a response whose \<^verbatim>\<open>embeddings\<close> may be missing.
\<close>

record EmbedResponse =
  embeddings :: "embedding list option"

definition generateBatchEmbeddingsInternal ::
  "(string list \<Rightarrow> error + EmbedResponse) \<Rightarrow> string list \<Rightarrow> error + embedding list" where
  "generateBatchEmbeddingsInternal ollama_embed texts =
     (case ollama_embed texts of
        Inl e \<Rightarrow> Inl e
      | Inr response \<Rightarrow>
          (case embeddings response of
             None \<Rightarrow> Inl (BatchLengthMismatch (length texts) 0)
           | Some es \<Rightarrow>
               if length es \<noteq> length texts
               then Inl (BatchLengthMismatch (length texts) (length es))
               else Inr es))"

section \<open>Array operations\<close>

text \<open>
  \<^verbatim>\<open>Array.prototype.sort(compare)\<close> is stable (ECMAScript 2019): for a comparator that is
  a consistent ordering of the elements, the result is the stable sorted permutation, which
  insertion from the right computes. \<open>compare x y > 0\<close> places \<open>x\<close> after \<open>y\<close>; a
  zero, negative or \<open>NaN\<close> answer leaves \<open>x\<close> in front.
\<close>

fun js_insert :: "('a \<Rightarrow> 'a \<Rightarrow> jsnum) \<Rightarrow> 'a \<Rightarrow> 'a list \<Rightarrow> 'a list" where
  "js_insert compare x [] = [x]"
| "js_insert compare x (y # ys) =
     (if js_gt (compare x y) (Num 0) then y # js_insert compare x ys else x # y # ys)"

definition js_sort :: "('a \<Rightarrow> 'a \<Rightarrow> jsnum) \<Rightarrow> 'a list \<Rightarrow> 'a list" where
  "js_sort compare xs = foldr (js_insert compare) xs []"

text \<open>
  \<^verbatim>\<open>xs.slice(0, end)\<close> for an integer \<open>end\<close>: a negative \<open>end\<close> counts from the end
  of the array.
\<close>

definition js_slice0 :: "int \<Rightarrow> 'a list \<Rightarrow> 'a list" where
  "js_slice0 end' xs =
     (if end' < 0 then take (length xs - nat (- end')) xs else take (nat end') xs)"


text \<open>\<^verbatim>\<open>s.split(':')[i]\<close>, which is \<^verbatim>\<open>undefined\<close> when \<open>s\<close> has fewer parts.\<close>

fun split_colon :: "string \<Rightarrow> string list" where
  "split_colon [] = [[]]"
| "split_colon (c # cs) =
     (if c = CHR '':'' then [] # split_colon cs
      else (case split_colon cs of [] \<Rightarrow> [[c]] | p # ps \<Rightarrow> (c # p) # ps))"

definition name_part :: "string \<Rightarrow> nat \<Rightarrow> string option" where
  "name_part n i = (let ps = split_colon n in if i < length ps then Some (ps ! i) else None)"

section \<open>The semantic search service\<close>

record Memory =
  memory_id :: string
  content :: string
  category :: string
  metadata :: string
  created_at :: int
  updated_at :: int
  relevance_score :: jsnum

record SemanticSearchResult =
  memory :: Memory
  similarity :: jsnum
  embedding :: embedding

record SemanticSearchOptions =
  opt_limit :: "int option"
  opt_minSimilarity :: "jsnum option"
  opt_category :: "string option"
  opt_includeEmbeddings :: "bool option"



text \<open>
  The database and the embedding provider are collaborators of the service: records of the
  operations it calls. The provider and model arguments of the database are the two first
  parts of the provider's name.
\<close>

record MemoryDatabase =
  getMemoriesWithEmbeddings :: "string option \<Rightarrow> string option \<Rightarrow> (Memory \<times> embedding) list"
  getEmbedding :: "string \<Rightarrow> string option \<Rightarrow> string option \<Rightarrow> embedding option"
  searchMemories :: "string \<Rightarrow> int \<Rightarrow> Memory list"

record EmbeddingProvider =
  name :: string
  generateEmbedding :: "string \<Rightarrow> error + embedding"

record SemanticSearchService =
  db :: MemoryDatabase
  embeddingProvider :: EmbeddingProvider

text \<open>
  \<open>cos_similarity\<close> is the function of the package \<^verbatim>\<open>cos-similarity\<close>, a parameter of
  the model. \<^verbatim>\<open>if (category)\<close> is false for a missing and for an empty category.
\<close>

definition searchSimilar ::
  "(embedding \<Rightarrow> embedding \<Rightarrow> jsnum) \<Rightarrow> SemanticSearchService \<Rightarrow> string \<Rightarrow>
   'a SemanticSearchOptions_scheme \<Rightarrow> error + SemanticSearchResult list" where
  "searchSimilar cos_similarity svc query options =
     (let limit = (case opt_limit options of None \<Rightarrow> 10 | Some l \<Rightarrow> l);
          minSimilarity = (case opt_minSimilarity options of None \<Rightarrow> Num 0.7 | Some m \<Rightarrow> m);
          includeEmbeddings = (case opt_includeEmbeddings options of None \<Rightarrow> False | Some b \<Rightarrow> b)
      in case generateEmbedding (embeddingProvider svc) query of
           Inl e \<Rightarrow> Inl e
         | Inr queryEmbedding \<Rightarrow>
             let memoriesWithEmbeddings =
                   getMemoriesWithEmbeddings (db svc)
                     (name_part (name (embeddingProvider svc)) 0)
                     (name_part (name (embeddingProvider svc)) 1);
                 filteredMemories =
                   (case opt_category options of
                      None \<Rightarrow> memoriesWithEmbeddings
                    | Some c \<Rightarrow>
                        if c = [] then memoriesWithEmbeddings
                        else filter (\<lambda>item. category (fst item) = c) memoriesWithEmbeddings)
             in Inr (js_slice0 limit
                  (js_sort (\<lambda>a b. js_sub (similarity b) (similarity a))
                    (filter (\<lambda>result. js_ge (similarity result) minSimilarity)
                      (map (\<lambda>item. \<lparr>memory = fst item,
                                    similarity = cos_similarity queryEmbedding (snd item),
                                    embedding = (if includeEmbeddings then snd item else [])\<rparr>)
                        filteredMemories)))))"

definition findSimilarToMemory ::
  "(embedding \<Rightarrow> embedding \<Rightarrow> jsnum) \<Rightarrow> SemanticSearchService \<Rightarrow> string \<Rightarrow>
   'a SemanticSearchOptions_scheme \<Rightarrow> error + SemanticSearchResult list" where
  "findSimilarToMemory cos_similarity svc memoryId options =
     (let limit = (case opt_limit options of None \<Rightarrow> 5 | Some l \<Rightarrow> l);
          minSimilarity = (case opt_minSimilarity options of None \<Rightarrow> Num 0.7 | Some m \<Rightarrow> m)
      in case getEmbedding (db svc) memoryId
                (name_part (name (embeddingProvider svc)) 0)
                (name_part (name (embeddingProvider svc)) 1) of
           None \<Rightarrow> Inl (EmbeddingNotFound memoryId)
         | Some sourceEmbedding \<Rightarrow>
             let memoriesWithEmbeddings =
                   filter (\<lambda>item. memory_id (fst item) \<noteq> memoryId)
                     (getMemoriesWithEmbeddings (db svc)
                       (name_part (name (embeddingProvider svc)) 0)
                       (name_part (name (embeddingProvider svc)) 1));
                 filteredMemories =
                   (case opt_category options of
                      None \<Rightarrow> memoriesWithEmbeddings
                    | Some c \<Rightarrow>
                        if c = [] then memoriesWithEmbeddings
                        else filter (\<lambda>item. category (fst item) = c) memoriesWithEmbeddings)
             in Inr (js_slice0 limit
                  (js_sort (\<lambda>a b. js_sub (similarity b) (similarity a))
                    (filter (\<lambda>result. js_ge (similarity result) minSimilarity)
                      (map (\<lambda>item. \<lparr>memory = fst item,
                                    similarity = cos_similarity sourceEmbedding (snd item),
                                    embedding = snd item\<rparr>)
                        filteredMemories)))))"

subsection \<open>The batch coalescer\<close>

text \<open>
  A queued request is its text and the pair of callbacks \<^verbatim>\<open>resolve\<close>, \<^verbatim>\<open>reject\<close> of the
  promise that waits for it; \<open>handle\<close> names that promise. Calling \<^verbatim>\<open>item.resolve(v)\<close> or
  \<^verbatim>\<open>item.reject(e)\<close> is recorded as a settlement of the handle.
\<close>

record PendingRequest =
  req_text :: string
  handle :: nat

datatype settlement = Resolved nat embedding | Rejected nat error

record OllamaEmbeddingProvider =
  config :: EmbeddingConfig
  cache :: "MemoryEmbeddingCache option"
  batchQueue :: "PendingRequest list"
  processingBatch :: bool

text \<open>The constructor: the cache exists only when \<^verbatim>\<open>config.cacheEnabled\<close> is truthy.\<close>

definition OllamaEmbeddingProvider_new :: "EmbeddingConfig \<Rightarrow> OllamaEmbeddingProvider" where
  "OllamaEmbeddingProvider_new cfg =
     \<lparr>config = cfg,
      cache = (if cacheEnabled cfg = Some True then Some MemoryEmbeddingCache_new else None),
      batchQueue = [], processingBatch = False\<rparr>"

definition getCachedEmbedding ::
  "int \<Rightarrow> string \<Rightarrow> OllamaEmbeddingProvider \<Rightarrow> OllamaEmbeddingProvider \<times> embedding option" where
  "getCachedEmbedding now txt p =
     (case cache p of
        None \<Rightarrow> (p, None)
      | Some c \<Rightarrow>
          (p\<lparr>cache := Some (fst (MemoryEmbeddingCache_get now (getCacheKey (config p) txt) c))\<rparr>,
           snd (MemoryEmbeddingCache_get now (getCacheKey (config p) txt) c)))"

definition setCachedEmbedding ::
  "int \<Rightarrow> string \<Rightarrow> embedding \<Rightarrow> OllamaEmbeddingProvider \<Rightarrow> OllamaEmbeddingProvider" where
  "setCachedEmbedding now txt emb p =
     (case cache p of
        None \<Rightarrow> p
      | Some c \<Rightarrow>
          p\<lparr>cache := Some (MemoryEmbeddingCache_set now (getCacheKey (config p) txt) emb c)\<rparr>)"

text \<open>
  The success branch of \<open>processBatch\<close>:
  \<^verbatim>\<open>currentBatch.forEach((item, index) => { ... })\<close>, the items from position \<open>index\<close> on.
  \<open>clock index\<close> is \<^verbatim>\<open>Date.now()\<close> when item \<open>index\<close> is written to the cache. The length
  check of \<open>generateBatchEmbeddingsInternal\<close> keeps \<open>index\<close> within \<open>embs\<close>
  (\<open>processBatch_resolves\<close> states the results through positions below the length only).
\<close>

fun forEach_resolve ::
  "(nat \<Rightarrow> int) \<Rightarrow> embedding list \<Rightarrow> PendingRequest list \<Rightarrow> nat \<Rightarrow> OllamaEmbeddingProvider \<Rightarrow>
   OllamaEmbeddingProvider \<times> settlement list" where
  "forEach_resolve clock embs [] index p = (p, [])"
| "forEach_resolve clock embs (item # rest) index p =
     (let emb = embs ! index;
          p1 = setCachedEmbedding (clock index) (req_text item) emb p;
          r = forEach_resolve clock embs rest (Suc index) p1
      in (fst r, Resolved (handle item) emb # snd r))"

text \<open>
  \<open>processBatch\<close> from the end of its 50 ms sleep on. \<open>ollama_embed k\<close> is the answer of
  the Ollama client to the \<open>k\<close>-th request that follows (requests are counted from 0);
  the function issues one request. The result is the provider afterwards, the settlements
  in the order they were made, and whether the next \<open>processBatch\<close> was scheduled.
  \<^verbatim>\<open>splice(0, batchSize)\<close> removes nothing for a negative \<open>batchSize\<close>.
\<close>

definition processBatch_after_sleep ::
  "(nat \<Rightarrow> string list \<Rightarrow> error + EmbedResponse) \<Rightarrow> (nat \<Rightarrow> int) \<Rightarrow> OllamaEmbeddingProvider \<Rightarrow>
   OllamaEmbeddingProvider \<times> settlement list \<times> bool" where
  "processBatch_after_sleep ollama_embed clock p =
     (if batchQueue p = [] then (p, [], False)
      else
        let batchSize' = (case batchSize (config p) of
                            None \<Rightarrow> 32 | Some b \<Rightarrow> if b = 0 then 32 else b);
            currentBatch = take (nat batchSize') (batchQueue p);
            p1 = p\<lparr>processingBatch := True,
                   batchQueue := drop (nat batchSize') (batchQueue p)\<rparr>;
            r = (case generateBatchEmbeddingsInternal (ollama_embed 0)
                        (map req_text currentBatch) of
                   Inr embs \<Rightarrow> forEach_resolve clock embs currentBatch 0 p1
                 | Inl e \<Rightarrow> (p1, map (\<lambda>item. Rejected (handle item) e) currentBatch));
            p3 = (fst r)\<lparr>processingBatch := False\<rparr>
        in (p3, snd r, batchQueue p3 \<noteq> []))"

text \<open>
  The whole of \<open>processBatch\<close>: the guard, the sleep (\<open>during_sleep\<close> is what the other
  callers do to the provider meanwhile, such as queueing more requests), then the dispatch.
\<close>

definition processBatch ::
  "(nat \<Rightarrow> string list \<Rightarrow> error + EmbedResponse) \<Rightarrow> (nat \<Rightarrow> int) \<Rightarrow>
   (OllamaEmbeddingProvider \<Rightarrow> OllamaEmbeddingProvider) \<Rightarrow> OllamaEmbeddingProvider \<Rightarrow>
   OllamaEmbeddingProvider \<times> settlement list \<times> bool" where
  "processBatch ollama_embed clock during_sleep p =
     (if processingBatch p \<or> batchQueue p = [] then (p, [], False)
      else processBatch_after_sleep ollama_embed clock (during_sleep p))"

text \<open>
  \<open>generateWithBatching\<close>: the request joins the end of the queue and \<open>processBatch\<close> is
  called.
\<close>

definition generateWithBatching ::
  "(nat \<Rightarrow> string list \<Rightarrow> error + EmbedResponse) \<Rightarrow> (nat \<Rightarrow> int) \<Rightarrow>
   (OllamaEmbeddingProvider \<Rightarrow> OllamaEmbeddingProvider) \<Rightarrow> string \<Rightarrow> nat \<Rightarrow>
   OllamaEmbeddingProvider \<Rightarrow> OllamaEmbeddingProvider \<times> settlement list \<times> bool" where
  "generateWithBatching ollama_embed clock during_sleep txt h p =
     processBatch ollama_embed clock during_sleep
       (p\<lparr>batchQueue := batchQueue p @ [\<lparr>req_text = txt, handle = h\<rparr>]\<rparr>)"

subsection \<open>Clustering\<close>

record MemoryCluster =
  cluster :: "SemanticSearchResult list"
  avgSimilarity :: jsnum

text \<open>
  The inner loop of \<open>clusterMemories\<close>, \<^verbatim>\<open>for (const other of memoriesWithEmbeddings)\<close>,
  over the remaining \<open>others\<close>. Its state is the cluster under construction, the running
  \<open>totalSimilarity\<close> and the set \<open>processed\<close> of memory ids.
\<close>

fun cluster_scan ::
  "(embedding \<Rightarrow> embedding \<Rightarrow> jsnum) \<Rightarrow> jsnum \<Rightarrow> Memory \<times> embedding \<Rightarrow> (Memory \<times> embedding) list \<Rightarrow>
   SemanticSearchResult list \<times> jsnum \<times> string set \<Rightarrow>
   SemanticSearchResult list \<times> jsnum \<times> string set" where
  "cluster_scan cos_similarity threshold item [] st = st"
| "cluster_scan cos_similarity threshold item (other # rest) (members, totalSimilarity, processed) =
     (if memory_id (fst other) = memory_id (fst item) \<or> memory_id (fst other) \<in> processed
      then cluster_scan cos_similarity threshold item rest (members, totalSimilarity, processed)
      else
        let sim = cos_similarity (snd item) (snd other)
        in if js_ge sim threshold
           then cluster_scan cos_similarity threshold item rest
                  (members @ [\<lparr>memory = fst other, similarity = sim, embedding = snd other\<rparr>],
                   js_add totalSimilarity sim,
                   insert (memory_id (fst other)) processed)
           else cluster_scan cos_similarity threshold item rest
                  (members, totalSimilarity, processed))"

text \<open>
  The outer loop, \<^verbatim>\<open>for (const item of memoriesWithEmbeddings)\<close>, over the remaining
  \<open>items\<close>; \<open>every\<close> is the whole list, which each inner loop scans from its start.
\<close>

fun cluster_loop ::
  "(embedding \<Rightarrow> embedding \<Rightarrow> jsnum) \<Rightarrow> jsnum \<Rightarrow> int \<Rightarrow> (Memory \<times> embedding) list \<Rightarrow>
   (Memory \<times> embedding) list \<Rightarrow> MemoryCluster list \<times> string set \<Rightarrow> MemoryCluster list" where
  "cluster_loop cos_similarity threshold minClusterSize every [] (clusters, processed) = clusters"
| "cluster_loop cos_similarity threshold minClusterSize every (item # rest) (clusters, processed) =
     (if memory_id (fst item) \<in> processed
      then cluster_loop cos_similarity threshold minClusterSize every rest (clusters, processed)
      else
        let scanned = cluster_scan cos_similarity threshold item every
                        ([\<lparr>memory = fst item, similarity = Num 1, embedding = snd item\<rparr>],
                         Num 1, processed);
            members = fst scanned;
            totalSimilarity = fst (snd scanned);
            processed1 = snd (snd scanned);
            clusters1 =
              (if int (length members) \<ge> minClusterSize
               then clusters @ [\<lparr>cluster = members,
                                  avgSimilarity = js_div_count totalSimilarity (length members)\<rparr>]
               else clusters)
        in cluster_loop cos_similarity threshold minClusterSize every rest
             (clusters1, insert (memory_id (fst item)) processed1))"

definition clusterMemories ::
  "(embedding \<Rightarrow> embedding \<Rightarrow> jsnum) \<Rightarrow> SemanticSearchService \<Rightarrow> jsnum option \<Rightarrow> int option \<Rightarrow>
   MemoryCluster list" where
  "clusterMemories cos_similarity svc threshold minClusterSize =
     (let threshold' = (case threshold of None \<Rightarrow> Num 0.8 | Some t \<Rightarrow> t);
          minClusterSize' = (case minClusterSize of None \<Rightarrow> 2 | Some m \<Rightarrow> m);
          memoriesWithEmbeddings =
            getMemoriesWithEmbeddings (db svc)
              (name_part (name (embeddingProvider svc)) 0)
              (name_part (name (embeddingProvider svc)) 1)
      in js_sort (\<lambda>a b. js_sub (avgSimilarity b) (avgSimilarity a))
           (cluster_loop cos_similarity threshold' minClusterSize' memoriesWithEmbeddings
              memoriesWithEmbeddings ([], {})))"

subsection \<open>Hybrid search\<close>



section \<open>Support for the statements\<close>

text \<open>The real value of a number that is not \<open>NaN\<close>.\<close>

fun num_of :: "jsnum \<Rightarrow> real" where
  "num_of (Num x) = x"
| "num_of NaN = 0"

text \<open>Example data: three stored memories with their vectors, and a service over them.\<close>

definition example_memory :: "string \<Rightarrow> string \<Rightarrow> int \<Rightarrow> Memory" where
  "example_memory i c t =
     \<lparr>memory_id = i, content = ''note'', category = c, metadata = ''{}'',
      created_at = t, updated_at = t, relevance_score = Num 1\<rparr>"

definition example_rows :: "(Memory \<times> embedding) list" where
  "example_rows =
     [(example_memory ''a'' ''facts'' 30, [Num 1, Num 0]),
      (example_memory ''b'' ''facts'' 20, [Num 0, Num 1]),
      (example_memory ''c'' ''goals'' 10, [Num 1, Num 0])]"

definition example_service :: SemanticSearchService where
  "example_service =
     \<lparr>db = \<lparr>getMemoriesWithEmbeddings = (\<lambda>p m. example_rows),
             getEmbedding = (\<lambda>i p m. map_of (map (\<lambda>row. (memory_id (fst row), snd row)) example_rows) i),
             searchMemories = (\<lambda>q n. map fst example_rows)\<rparr>,
      embeddingProvider = \<lparr>name = ''ollama:m'', generateEmbedding = (\<lambda>q. Inr [Num 1, Num 0])\<rparr>\<rparr>"

definition example_cos :: "embedding \<Rightarrow> embedding \<Rightarrow> jsnum" where
  "example_cos a b = (if a = b then Num 1 else Num 0)"

definition example_options :: SemanticSearchOptions where
  "example_options =
     \<lparr>opt_limit = Some 2, opt_minSimilarity = Some (Num 0.5), opt_category = None,
      opt_includeEmbeddings = None\<rparr>"

text \<open>Example data: a provider with three queued requests, and an Ollama client that
  rejects the first request it receives and answers the later ones.\<close>

definition example_config :: "bool option \<Rightarrow> EmbeddingConfig" where
  "example_config c =
     \<lparr>provider = ''ollama'', model = ''nomic-embed-text'', host = None, batchSize = Some 2,
      maxRetries = Some 3, timeoutMs = None, cacheEnabled = c\<rparr>"

definition example_queue :: "PendingRequest list" where
  "example_queue =
     [\<lparr>req_text = ''one'', handle = 1\<rparr>, \<lparr>req_text = ''two'', handle = 2\<rparr>,
      \<lparr>req_text = ''three'', handle = 3\<rparr>]"

definition example_busy_once :: "nat \<Rightarrow> string list \<Rightarrow> error + EmbedResponse" where
  "example_busy_once k texts =
     (if k = 0 then Inl (ProviderError ''busy'')
      else Inr \<lparr>embeddings = Some (map (\<lambda>t. [Num (real (length t))]) texts)\<rparr>)"

definition example_provider :: "bool option \<Rightarrow> OllamaEmbeddingProvider" where
  "example_provider c = (OllamaEmbeddingProvider_new (example_config c))\<lparr>batchQueue := example_queue\<rparr>"

text \<open>The memory ids of a list of results, and the mean of their recorded similarities.\<close>

definition result_ids :: "SemanticSearchResult list \<Rightarrow> string list" where
  "result_ids rs = map (\<lambda>r. memory_id (memory r)) rs"

definition mean_similarity :: "SemanticSearchResult list \<Rightarrow> real" where
  "mean_similarity rs = sum_list (map (\<lambda>r. num_of (similarity r)) rs) / real (length rs)"

text \<open>
  The invariant of the inner loop of \<open>clusterMemories\<close> for the seed \<open>s\<close>, where \<open>P0\<close> is the
  set \<open>processed\<close> when the loop starts, and what the outer loop keeps of every cluster.
\<close>

definition scan_inv ::
  "string \<Rightarrow> string set \<Rightarrow> SemanticSearchResult list \<times> jsnum \<times> string set \<Rightarrow> bool" where
  "scan_inv s P0 st =
     (case st of (members, tot, processed) \<Rightarrow>
        members \<noteq> [] \<and> similarity (hd members) = Num 1 \<and> memory_id (memory (hd members)) = s \<and>
        (\<forall>r \<in> set members. similarity r \<noteq> NaN) \<and>
        tot = Num (sum_list (map (\<lambda>r. num_of (similarity r)) members)) \<and>
        distinct (result_ids members) \<and> s \<notin> P0 \<and>
        set (result_ids (tl members)) \<inter> P0 = {} \<and>
        processed = P0 \<union> set (result_ids (tl members)))"

definition good_cluster :: "int \<Rightarrow> MemoryCluster \<Rightarrow> bool" where
  "good_cluster m c =
     (int (length (cluster c)) \<ge> m \<and> cluster c \<noteq> [] \<and> similarity (hd (cluster c)) = Num 1 \<and>
      (\<forall>r \<in> set (cluster c). similarity r \<noteq> NaN) \<and>
      avgSimilarity c = Num (mean_similarity (cluster c)))"

text \<open>Example data for clustering: five stored memories and a graded similarity.\<close>

definition example_cos_graded :: "embedding \<Rightarrow> embedding \<Rightarrow> jsnum" where
  "example_cos_graded a b =
     (if a = b then Num 1 else if take 1 a = take 1 b then Num 0.9 else Num 0)"

definition example_cluster_service :: SemanticSearchService where
  "example_cluster_service =
     \<lparr>db = \<lparr>getMemoriesWithEmbeddings = (\<lambda>p m.
               [(example_memory ''b'' ''facts'' 40, [Num 0, Num 1]),
                (example_memory ''a'' ''facts'' 30, [Num 1, Num 0]),
                (example_memory ''d'' ''facts'' 20, [Num 0, Num 2]),
                (example_memory ''c'' ''goals'' 10, [Num 1, Num 0]),
                (example_memory ''e'' ''goals'' 5, [Num 5, Num 5])]),
             getEmbedding = (\<lambda>i p m. None),
             searchMemories = (\<lambda>q n. [])\<rparr>,
      embeddingProvider = \<lparr>name = ''ollama:m'', generateEmbedding = (\<lambda>q. Inr [Num 1, Num 0])\<rparr>\<rparr>"


section \<open>Properties\<close>

lemma retry_loop_attempted:
  "attempt \<le> maxRetries' \<Longrightarrow>
   calls (retry_loop operation maxRetries' baseDelay attempt lastError made delays) \<ge> Suc made \<and>
   outcome (retry_loop operation maxRetries' baseDelay attempt lastError made delays)
     \<noteq> Inl TypeError_undefined"
proof (induction operation maxRetries' baseDelay attempt lastError made delays
       rule: retry_loop.induct)
  case (1 operation maxRetries' baseDelay attempt lastError made delays)
  show ?case
  proof (cases "operation made")
    case (Inr v)
    with "1.prems" show ?thesis
      by (subst (1 2) retry_loop.simps) simp
  next
    case (Inl e)
    show ?thesis
    proof (cases "attempt = maxRetries'")
      case True
      with Inl show ?thesis
        by (subst (1 2) retry_loop.simps) (simp add: retry_throw_def)
    next
      case False
      with "1.prems" have "attempt + 1 \<le> maxRetries'" by simp
      from "1.IH"[OF "1.prems" Inl False this] Inl False "1.prems" show ?thesis
        by (subst (1 2) retry_loop.simps) simp
    qed
  qed
qed

lemma retry_loop_exhausted:
  "attempt \<le> maxRetries' \<Longrightarrow> 1 \<le> attempt \<Longrightarrow> made = nat (attempt - 1) \<Longrightarrow>
   outcome (retry_loop operation maxRetries' baseDelay attempt lastError made delays) = Inl err \<Longrightarrow>
   calls (retry_loop operation maxRetries' baseDelay attempt lastError made delays)
     = nat maxRetries' \<and>
   (\<exists>e. operation (nat maxRetries' - 1) = Inl e \<and> err = RetryExhausted maxRetries' e)"
proof (induction operation maxRetries' baseDelay attempt lastError made delays
       rule: retry_loop.induct)
  case (1 operation maxRetries' baseDelay attempt lastError made delays)
  show ?case
  proof (cases "operation made")
    case (Inr v)
    with "1.prems" show ?thesis
      by (subst (asm) retry_loop.simps) simp
  next
    case (Inl e)
    show ?thesis
    proof (cases "attempt = maxRetries'")
      case True
      from "1.prems"(4) Inl True "1.prems"(1)
      have err: "err = RetryExhausted maxRetries' e"
        by (subst (asm) retry_loop.simps) (simp add: retry_throw_def)
      from "1.prems"(2,3) True have made: "Suc made = nat maxRetries'" "made = nat maxRetries' - 1"
        by simp_all
      from Inl True "1.prems"(1) made err show ?thesis
        by (subst retry_loop.simps) simp
    next
      case False
      with "1.prems" have le: "attempt + 1 \<le> maxRetries'" by simp
      from "1.prems"(2,3) have made: "Suc made = nat (attempt + 1 - 1)" by simp
      from "1.prems"(4) Inl False "1.prems"(1)
      have out: "outcome (retry_loop operation maxRetries' baseDelay (attempt + 1) (Some e)
          (Suc made) (delays @ [min (baseDelay * 2 ^ nat (attempt - 1)) 10000])) = Inl err"
        by (subst (asm) retry_loop.simps) simp
      from "1.prems"(2) have "1 \<le> attempt + 1" by simp
      from "1.IH"[OF "1.prems"(1) Inl False le this made out] Inl False "1.prems"(1)
      show ?thesis
        by (subst retry_loop.simps) simp
    qed
  qed
qed

lemma colon_split_unique:
  "c \<notin> set a \<Longrightarrow> c \<notin> set a' \<Longrightarrow> a @ c # r = a' @ c # r' \<Longrightarrow> a = a' \<and> r = r'"
proof (induction a arbitrary: a')
  case Nil
  then show ?case by (cases a') auto
next
  case (Cons x xs)
  then show ?case by (cases a') auto
qed

subsection \<open>The cache\<close>

text \<open>
  C7. \<open>get\<close> answers a miss exactly when the key is absent or the entry is older than the
  TTL (\<open>now - timestamp > ttl\<close>); a vector it returns is the stored one of an entry whose
  age is within the TTL, and an expired entry is deleted by the lookup.
\<close>

theorem MemoryEmbeddingCache_get_miss_iff:
  "(snd (MemoryEmbeddingCache_get now key c) = None \<longleftrightarrow>
      (map_of (cache_map c) key = None \<or>
       (\<exists>e. map_of (cache_map c) key = Some e \<and> now - timestamp e > ttl c))) \<and>
   (\<forall>v. snd (MemoryEmbeddingCache_get now key c) = Some v \<longrightarrow>
      (\<exists>e. map_of (cache_map c) key = Some e \<and> entry_embedding e = v \<and>
           now - timestamp e \<le> ttl c)) \<and>
   (\<forall>e. map_of (cache_map c) key = Some e \<and> now - timestamp e > ttl c \<longrightarrow>
      map_of (cache_map (fst (MemoryEmbeddingCache_get now key c))) key = None)"
  by (auto simp: MemoryEmbeddingCache_get_def delete_conv' split: option.splits)

theorem MemoryEmbeddingCache_get_miss_iff_witness:
  "snd (MemoryEmbeddingCache_get 5000 ''k''
      \<lparr>cache_map = [(''k'', \<lparr>entry_embedding = [Num 1], timestamp = 1000\<rparr>)],
       maxSize = 1000, ttl = 3600\<rparr>) = None \<and>
   snd (MemoryEmbeddingCache_get 4600 ''k''
      \<lparr>cache_map = [(''k'', \<lparr>entry_embedding = [Num 1], timestamp = 1000\<rparr>)],
       maxSize = 1000, ttl = 3600\<rparr>) = Some [Num 1]"
  using MemoryEmbeddingCache_get_miss_iff [of 5000 "''k''"
      "\<lparr>cache_map = [(''k'', \<lparr>entry_embedding = [Num 1], timestamp = 1000\<rparr>)],
        maxSize = 1000, ttl = 3600\<rparr>"]
    MemoryEmbeddingCache_get_miss_iff [of 4600 "''k''"
      "\<lparr>cache_map = [(''k'', \<lparr>entry_embedding = [Num 1], timestamp = 1000\<rparr>)],
        maxSize = 1000, ttl = 3600\<rparr>"]
  by (simp add: MemoryEmbeddingCache_get_def)

subsection \<open>Cache keys\<close>

text \<open>
  C8, as stated, fails. The key is the plain concatenation
  \<open>provider : model : text\<close>, so a colon inside a model name moves the boundary:
  the model \<open>nomic-embed-text:latest\<close> with the text \<open>x\<close> and the model
  \<open>nomic-embed-text\<close> with the text \<open>latest:x\<close> have the same key, although the
  two (provider, model) pairs differ.
\<close>

theorem getCacheKey_collision:
  "getCacheKey \<lparr>provider = ''ollama'', model = ''nomic-embed-text:latest'', host = None,
       batchSize = None, maxRetries = None, timeoutMs = None, cacheEnabled = Some True\<rparr> ''x''
   = getCacheKey \<lparr>provider = ''ollama'', model = ''nomic-embed-text'', host = None,
       batchSize = None, maxRetries = None, timeoutMs = None, cacheEnabled = Some True\<rparr>
       ''latest:x'' \<and>
   (''ollama'', ''nomic-embed-text:latest'') \<noteq> (''ollama'', ''nomic-embed-text'')"
  by (simp add: getCacheKey_def)

text \<open>
  C8, amended. When neither provider nor model names contain a colon, two configurations
  that differ in the provider or in the model (an empty model name read as \<open>default\<close>,
  as the key does) never have a key in common, whatever the texts.
\<close>

theorem getCacheKey_injective:
  assumes "CHR '':'' \<notin> set (provider c1)" and "CHR '':'' \<notin> set (provider c2)"
    and "CHR '':'' \<notin> set (model c1)" and "CHR '':'' \<notin> set (model c2)"
    and "(provider c1, if model c1 = [] then ''default'' else model c1)
         \<noteq> (provider c2, if model c2 = [] then ''default'' else model c2)"
  shows "getCacheKey c1 t1 \<noteq> getCacheKey c2 t2"
proof
  let ?m1 = "if model c1 = [] then ''default'' else model c1"
  let ?m2 = "if model c2 = [] then ''default'' else model c2"
  assume "getCacheKey c1 t1 = getCacheKey c2 t2"
  then have eq: "provider c1 @ CHR '':'' # (?m1 @ CHR '':'' # t1)
               = provider c2 @ CHR '':'' # (?m2 @ CHR '':'' # t2)"
    by (simp add: getCacheKey_def)
  from colon_split_unique [OF assms(1,2) eq]
  have p: "provider c1 = provider c2" and rest: "?m1 @ CHR '':'' # t1 = ?m2 @ CHR '':'' # t2"
    by simp_all
  have m1: "CHR '':'' \<notin> set ?m1" using assms(3) by simp
  have m2: "CHR '':'' \<notin> set ?m2" using assms(4) by simp
  from colon_split_unique [OF m1 m2 rest] have "?m1 = ?m2" by simp
  with p assms(5) show False by simp
qed

theorem getCacheKey_injective_witness:
  "getCacheKey \<lparr>provider = ''ollama'', model = ''nomic-embed-text'', host = None,
       batchSize = None, maxRetries = None, timeoutMs = None, cacheEnabled = Some True\<rparr> ''x''
   \<noteq> getCacheKey \<lparr>provider = ''ollama'', model = ''all-minilm'', host = None,
       batchSize = None, maxRetries = None, timeoutMs = None, cacheEnabled = Some True\<rparr> ''x''"
  by (rule getCacheKey_injective) simp_all

subsection \<open>Retry\<close>

text \<open>
  C10. With \<open>maxRetries \<ge> 1\<close> the operation is called at least once, the run never ends
  in the TypeError, and a failing run made exactly \<open>maxRetries\<close> calls and throws the
  exhaustion error that wraps the error of the last call. With \<open>maxRetries \<le> 0\<close> the loop
  body never runs: the operation is not called and the statement after the loop reads
  \<open>message\<close> of the unassigned \<open>lastError\<close>, a TypeError. An omitted \<open>maxRetries\<close> is 3.
\<close>

theorem retryWithBackoff_needs_an_attempt:
  assumes "m = (case maxRetries' of None \<Rightarrow> 3 | Some k \<Rightarrow> k)"
  shows "(1 \<le> m \<longrightarrow>
            1 \<le> calls (retryWithBackoff operation maxRetries' baseDelay) \<and>
            outcome (retryWithBackoff operation maxRetries' baseDelay) \<noteq> Inl TypeError_undefined \<and>
            (\<forall>err. outcome (retryWithBackoff operation maxRetries' baseDelay) = Inl err \<longrightarrow>
               calls (retryWithBackoff operation maxRetries' baseDelay) = nat m \<and>
               (\<exists>e. operation (nat m - 1) = Inl e \<and> err = RetryExhausted m e))) \<and>
         (m \<le> 0 \<longrightarrow>
            calls (retryWithBackoff operation maxRetries' baseDelay) = 0 \<and>
            outcome (retryWithBackoff operation maxRetries' baseDelay) = Inl TypeError_undefined)"
proof (intro conjI impI allI)
  assume "1 \<le> m"
  then have "Suc 0 \<le> calls (retry_loop operation m
        (case baseDelay of None \<Rightarrow> 1000 | Some d \<Rightarrow> d) 1 None 0 []) \<and>
      outcome (retry_loop operation m
        (case baseDelay of None \<Rightarrow> 1000 | Some d \<Rightarrow> d) 1 None 0 []) \<noteq> Inl TypeError_undefined"
    by (rule retry_loop_attempted)
  then show "1 \<le> calls (retryWithBackoff operation maxRetries' baseDelay)"
    and "outcome (retryWithBackoff operation maxRetries' baseDelay) \<noteq> Inl TypeError_undefined"
    unfolding retryWithBackoff_def assms by simp_all
next
  fix err
  assume "1 \<le> m" and "outcome (retryWithBackoff operation maxRetries' baseDelay) = Inl err"
  then have "calls (retryWithBackoff operation maxRetries' baseDelay) = nat m \<and>
      (\<exists>e. operation (nat m - 1) = Inl e \<and> err = RetryExhausted m e)"
    unfolding retryWithBackoff_def assms
    by (intro retry_loop_exhausted [where attempt = 1 and made = 0]) simp_all
  then show "calls (retryWithBackoff operation maxRetries' baseDelay) = nat m"
    and "\<exists>e. operation (nat m - 1) = Inl e \<and> err = RetryExhausted m e"
    by simp_all
next
  assume "m \<le> 0"
  then show "calls (retryWithBackoff operation maxRetries' baseDelay) = 0"
    and "outcome (retryWithBackoff operation maxRetries' baseDelay) = Inl TypeError_undefined"
    unfolding retryWithBackoff_def assms
    by (simp_all add: retry_loop.simps retry_throw_def)
qed

theorem retryWithBackoff_needs_an_attempt_witness:
  "calls (retryWithBackoff (\<lambda>k. (Inl (ProviderError ''down'') :: error + nat)) (Some 2) None) = 2 \<and>
   outcome (retryWithBackoff (\<lambda>k. (Inl (ProviderError ''down'') :: error + nat)) (Some 2) None)
     = Inl (RetryExhausted 2 (ProviderError ''down'')) \<and>
   calls (retryWithBackoff (\<lambda>k. (Inl (ProviderError ''down'') :: error + nat)) (Some 0) None) = 0 \<and>
   outcome (retryWithBackoff (\<lambda>k. (Inl (ProviderError ''down'') :: error + nat)) (Some 0) None)
     = Inl TypeError_undefined"
  using retryWithBackoff_needs_an_attempt
      [of 2 "Some 2" "\<lambda>k. (Inl (ProviderError ''down'') :: error + nat)" None]
    retryWithBackoff_needs_an_attempt
      [of 0 "Some 0" "\<lambda>k. (Inl (ProviderError ''down'') :: error + nat)" None]
  by (simp add: retryWithBackoff_def retry_loop.simps retry_throw_def)

subsection \<open>Batch length check\<close>

text \<open>
  C2. A response of the batch call whose vector count differs from the number of texts
  makes \<open>generateBatchEmbeddingsInternal\<close> fail with the length-mismatch error (so does a
  response with no \<open>embeddings\<close> at all); when it succeeds, the result is the response's
  own list, unchanged, and has one vector per text.
\<close>

theorem generateBatchEmbeddingsInternal_length:
  "(\<forall>response es. ollama_embed texts = Inr response \<and> embeddings response = Some es \<and>
        length es \<noteq> length texts \<longrightarrow>
      generateBatchEmbeddingsInternal ollama_embed texts
        = Inl (BatchLengthMismatch (length texts) (length es))) \<and>
   (\<forall>response. ollama_embed texts = Inr response \<and> embeddings response = None \<longrightarrow>
      generateBatchEmbeddingsInternal ollama_embed texts
        = Inl (BatchLengthMismatch (length texts) 0)) \<and>
   (\<forall>vs. generateBatchEmbeddingsInternal ollama_embed texts = Inr vs \<longrightarrow>
      length vs = length texts \<and>
      (\<exists>response. ollama_embed texts = Inr response \<and> embeddings response = Some vs))"
  by (auto simp: generateBatchEmbeddingsInternal_def split: sum.splits option.splits if_splits)

theorem generateBatchEmbeddingsInternal_length_witness:
  "generateBatchEmbeddingsInternal (\<lambda>ts. Inr \<lparr>embeddings = Some [[Num 1]]\<rparr>) [''a'', ''b'']
     = Inl (BatchLengthMismatch 2 1) \<and>
   generateBatchEmbeddingsInternal (\<lambda>ts. Inr \<lparr>embeddings = Some [[Num 1], [Num 0]]\<rparr>) [''a'', ''b'']
     = Inr [[Num 1], [Num 0]]"
  using generateBatchEmbeddingsInternal_length
      [of "\<lambda>ts. Inr \<lparr>embeddings = Some [[Num 1]]\<rparr>" "[''a'', ''b'']"]
    generateBatchEmbeddingsInternal_length
      [of "\<lambda>ts. Inr \<lparr>embeddings = Some [[Num 1], [Num 0]]\<rparr>" "[''a'', ''b'']"]
  by (auto simp: generateBatchEmbeddingsInternal_def)

subsection \<open>Sorting and slicing\<close>

lemma js_insert_insort_key:
  "\<forall>y \<in> set (x # ys). f y \<noteq> NaN \<Longrightarrow>
   js_insert (\<lambda>a b. js_sub (f b) (f a)) x ys = insort_key (\<lambda>a. - num_of (f a)) x ys"
proof (induction ys)
  case Nil
  then show ?case by simp
next
  case (Cons y ys)
  then obtain u v where "f x = Num u" "f y = Num v"
    by (cases "f x"; cases "f y") auto
  with Cons show ?case by auto
qed

lemma js_sort_sort_key:
  "\<forall>y \<in> set xs. f y \<noteq> NaN \<Longrightarrow>
   js_sort (\<lambda>a b. js_sub (f b) (f a)) xs = sort_key (\<lambda>a. - num_of (f a)) xs"
proof (induction xs)
  case Nil
  then show ?case by (simp add: js_sort_def)
next
  case (Cons x xs)
  then have "js_sort (\<lambda>a b. js_sub (f b) (f a)) xs = sort_key (\<lambda>a. - num_of (f a)) xs"
    by simp
  moreover have "\<forall>y \<in> set (x # sort_key (\<lambda>a. - num_of (f a)) xs). f y \<noteq> NaN"
    using Cons.prems by simp
  ultimately show ?case
    using js_insert_insort_key [of x "sort_key (\<lambda>a. - num_of (f a)) xs" f]
    by (simp add: js_sort_def)
qed

lemma js_sort_set:
  "\<forall>y \<in> set xs. f y \<noteq> NaN \<Longrightarrow> set (js_sort (\<lambda>a b. js_sub (f b) (f a)) xs) = set xs"
  by (simp add: js_sort_sort_key)

lemma js_sort_mset:
  "\<forall>y \<in> set xs. f y \<noteq> NaN \<Longrightarrow> mset (js_sort (\<lambda>a b. js_sub (f b) (f a)) xs) = mset xs"
  by (simp add: js_sort_sort_key)

lemma js_sort_sorted:
  assumes "\<forall>y \<in> set xs. f y \<noteq> NaN"
  shows "sorted_wrt (\<lambda>a b. js_ge (f a) (f b)) (js_sort (\<lambda>a b. js_sub (f b) (f a)) xs)"
proof -
  let ?s = "sort_key (\<lambda>a. - num_of (f a)) xs"
  have "sorted (map (\<lambda>a. - num_of (f a)) ?s)" by simp
  then have "sorted_wrt (\<lambda>a b. - num_of (f a) \<le> - num_of (f b)) ?s"
    by (simp only: sorted_map)
  moreover have "\<And>a b. a \<in> set ?s \<Longrightarrow> b \<in> set ?s \<Longrightarrow> - num_of (f a) \<le> - num_of (f b) \<Longrightarrow>
      js_ge (f a) (f b)"
  proof -
    fix a b assume "a \<in> set ?s" "b \<in> set ?s" and le: "- num_of (f a) \<le> - num_of (f b)"
    with assms obtain u v where "f a = Num u" "f b = Num v"
      by (cases "f a"; cases "f b") auto
    with le show "js_ge (f a) (f b)" by simp
  qed
  ultimately have "sorted_wrt (\<lambda>a b. js_ge (f a) (f b)) ?s"
    by (rule sorted_wrt_mono_rel [rotated])
  with assms show ?thesis by (simp add: js_sort_sort_key)
qed

lemma js_sort_stable:
  assumes "\<forall>y \<in> set xs. f y \<noteq> NaN"
  shows "filter (\<lambda>y. f y = v) (js_sort (\<lambda>a b. js_sub (f b) (f a)) xs) = filter (\<lambda>y. f y = v) xs"
proof (cases v)
  case NaN
  with assms show ?thesis
    by (simp add: js_sort_sort_key filter_empty_conv[THEN iffD2])
next
  case (Num u)
  have same: "\<And>ys. set ys = set xs \<Longrightarrow>
      filter (\<lambda>y. f y = v) ys = filter (\<lambda>y. - num_of (f y) = - u) ys"
  proof (rule filter_cong [OF refl])
    fix ys y assume "set ys = set xs" "y \<in> set ys"
    with assms obtain w where "f y = Num w" by (cases "f y") auto
    with Num show "(f y = v) = (- num_of (f y) = - u)" by simp
  qed
  show ?thesis
    using assms same [of xs] same [of "sort_key (\<lambda>a. - num_of (f a)) xs"]
      sort_key_stable [of "\<lambda>a. - num_of (f a)" "- u" xs]
    by (simp add: js_sort_sort_key)
qed

lemma js_slice0_prefix: "prefix (js_slice0 l xs) xs"
  by (simp add: js_slice0_def take_is_prefix)

lemma js_slice0_length: "0 \<le> l \<Longrightarrow> int (length (js_slice0 l xs)) \<le> l"
  by (simp add: js_slice0_def)

lemma js_ge_not_NaN: "js_ge x m \<Longrightarrow> x \<noteq> NaN"
  by (cases x) auto

lemma prefix_sorted_wrt: "prefix xs ys \<Longrightarrow> sorted_wrt P ys \<Longrightarrow> sorted_wrt P xs"
  by (auto simp: prefix_def sorted_wrt_append)

lemma category_filter_eq:
  "(case c of None \<Rightarrow> xs
    | Some c \<Rightarrow> if c = [] then xs else filter (\<lambda>item. category (fst item) = c) xs)
   = filter (\<lambda>item. case c of None \<Rightarrow> True | Some c \<Rightarrow> c = [] \<or> category (fst item) = c) xs"
  by (cases c) auto

lemma ranked_pipeline:
  fixes mk :: "Memory \<times> embedding \<Rightarrow> SemanticSearchResult"
  assumes res: "results = js_slice0 l (js_sort (\<lambda>a b. js_sub (similarity b) (similarity a))
      (filter (\<lambda>result. js_ge (similarity result) m) (map mk cands)))"
    and mk: "\<And>item. memory (mk item) = fst item \<and> similarity (mk item) = score (snd item)"
  shows "(\<forall>r \<in> set results. js_ge (similarity r) m) \<and>
    sorted_wrt (\<lambda>a b. js_ge (similarity a) (similarity b)) results \<and>
    (\<forall>v. prefix (map memory (filter (\<lambda>r. similarity r = v) results))
          (map fst (filter (\<lambda>item. score (snd item) = v) cands))) \<and>
    (0 \<le> l \<longrightarrow> int (length results) \<le> l)"
proof -
  let ?F = "filter (\<lambda>result. js_ge (similarity result) m) (map mk cands)"
  let ?S = "js_sort (\<lambda>a b. js_sub (similarity b) (similarity a)) ?F"
  have nn: "\<forall>y \<in> set ?F. similarity y \<noteq> NaN"
    by (auto dest: js_ge_not_NaN)
  have pre: "prefix results ?S"
    unfolding res by (rule js_slice0_prefix)
  have setS: "set ?S = set ?F"
    using nn by (rule js_sort_set)
  have a: "\<forall>r \<in> set results. js_ge (similarity r) m"
    using set_mono_prefix [OF pre] setS by auto
  have b: "sorted_wrt (\<lambda>a b. js_ge (similarity a) (similarity b)) results"
    using pre js_sort_sorted [OF nn] by (rule prefix_sorted_wrt)
  have c: "prefix (map memory (filter (\<lambda>r. similarity r = v) results))
          (map fst (filter (\<lambda>item. score (snd item) = v) cands))" for v
  proof -
    have p1: "prefix (map memory (filter (\<lambda>r. similarity r = v) results))
        (map memory (filter (\<lambda>r. similarity r = v) ?S))"
      using pre by (intro map_mono_prefix filter_mono_prefix)
    have st: "filter (\<lambda>r. similarity r = v) ?S = filter (\<lambda>r. similarity r = v) ?F"
      using nn by (rule js_sort_stable)
    show ?thesis
    proof (cases "js_ge v m")
      case True
      have "filter (\<lambda>r. similarity r = v) ?F = filter (\<lambda>r. similarity r = v) (map mk cands)"
        using True by (auto intro: filter_cong)
      also have "map memory \<dots> = map fst (filter (\<lambda>item. score (snd item) = v) cands)"
        by (induction cands) (simp_all add: mk)
      finally show ?thesis using p1 st by simp
    next
      case False
      then have "filter (\<lambda>r. similarity r = v) ?F = []"
        by (auto simp: filter_empty_conv)
      with p1 st show ?thesis by simp
    qed
  qed
  have d: "0 \<le> l \<longrightarrow> int (length results) \<le> l"
    unfolding res by (simp add: js_slice0_length)
  from a b c d show ?thesis by blast
qed

subsection \<open>Semantic search\<close>

text \<open>
  C3. Every result of \<open>searchSimilar\<close> has a similarity of at least \<open>minSimilarity\<close>;
  the similarities do not increase from the first result to the last; the results that
  share a similarity \<open>v\<close> are, in order, the first stored candidates (of the requested
  category) whose similarity to the query is \<open>v\<close>, so ties keep the order in which the
  candidates were supplied; and for a limit that is not negative there are at most
  \<open>limit\<close> results.
\<close>

theorem searchSimilar_ranked:
  assumes "searchSimilar cos_similarity svc query options = Inr results"
    and "generateEmbedding (embeddingProvider svc) query = Inr queryEmbedding"
  shows "(\<forall>r \<in> set results. js_ge (similarity r)
            (case opt_minSimilarity options of None \<Rightarrow> Num 0.7 | Some m \<Rightarrow> m)) \<and>
    sorted_wrt (\<lambda>a b. js_ge (similarity a) (similarity b)) results \<and>
    (\<forall>v. prefix (map memory (filter (\<lambda>r. similarity r = v) results))
          (map fst (filter (\<lambda>item. cos_similarity queryEmbedding (snd item) = v)
            (filter (\<lambda>item. case opt_category options of
                              None \<Rightarrow> True | Some c \<Rightarrow> c = [] \<or> category (fst item) = c)
              (getMemoriesWithEmbeddings (db svc)
                (name_part (name (embeddingProvider svc)) 0)
                (name_part (name (embeddingProvider svc)) 1)))))) \<and>
    (0 \<le> (case opt_limit options of None \<Rightarrow> 10 | Some l \<Rightarrow> l) \<longrightarrow>
       int (length results) \<le> (case opt_limit options of None \<Rightarrow> 10 | Some l \<Rightarrow> l))"
proof (rule ranked_pipeline)
  show "results = js_slice0 (case opt_limit options of None \<Rightarrow> 10 | Some l \<Rightarrow> l)
      (js_sort (\<lambda>a b. js_sub (similarity b) (similarity a))
        (filter (\<lambda>result. js_ge (similarity result)
             (case opt_minSimilarity options of None \<Rightarrow> Num 0.7 | Some m \<Rightarrow> m))
          (map (\<lambda>item. \<lparr>memory = fst item,
                   similarity = cos_similarity queryEmbedding (snd item),
                   embedding = (if (case opt_includeEmbeddings options of None \<Rightarrow> False | Some b \<Rightarrow> b)
                                then snd item else [])\<rparr>)
            (filter (\<lambda>item. case opt_category options of
                              None \<Rightarrow> True | Some c \<Rightarrow> c = [] \<or> category (fst item) = c)
              (getMemoriesWithEmbeddings (db svc)
                (name_part (name (embeddingProvider svc)) 0)
                (name_part (name (embeddingProvider svc)) 1))))))"
    using assms by (simp add: searchSimilar_def Let_def category_filter_eq)
qed simp

theorem searchSimilar_ranked_witness:
  "\<exists>results. searchSimilar example_cos example_service ''q'' example_options = Inr results \<and>
     map (\<lambda>r. memory_id (memory r)) results = [''a'', ''c''] \<and>
     sorted_wrt (\<lambda>a b. js_ge (similarity a) (similarity b)) results \<and>
     int (length results) \<le> 2"
proof -
  have eq: "searchSimilar example_cos example_service ''q'' example_options
      = Inr [\<lparr>memory = example_memory ''a'' ''facts'' 30, similarity = Num 1, embedding = []\<rparr>,
             \<lparr>memory = example_memory ''c'' ''goals'' 10, similarity = Num 1, embedding = []\<rparr>]"
    by (simp add: searchSimilar_def example_service_def example_options_def example_rows_def
        example_cos_def js_sort_def js_slice0_def)
  have gen: "generateEmbedding (embeddingProvider example_service) ''q'' = Inr [Num 1, Num 0]"
    by (simp add: example_service_def)
  from searchSimilar_ranked [OF eq gen] eq show ?thesis
    by (simp add: example_memory_def example_options_def)
qed

subsection \<open>Nearest neighbours of a stored memory\<close>

text \<open>
  C9. Without a stored vector for \<open>memoryId\<close> under the provider's name parts,
  \<open>findSimilarToMemory\<close> fails with the not-found error. With a stored vector it returns
  what \<open>searchSimilar\<close> returns for a query whose embedding is that vector, over the
  stored candidates other than \<open>memoryId\<close>, with the vectors included and the limit
  defaulting to 5; and no result is the memory \<open>memoryId\<close> itself.
\<close>

theorem findSimilarToMemory_behaviour:
  "(getEmbedding (db svc) memoryId (name_part (name (embeddingProvider svc)) 0)
       (name_part (name (embeddingProvider svc)) 1) = None \<longrightarrow>
      findSimilarToMemory cos_similarity svc memoryId options
        = Inl (EmbeddingNotFound memoryId)) \<and>
   (\<forall>sourceEmbedding.
      getEmbedding (db svc) memoryId (name_part (name (embeddingProvider svc)) 0)
        (name_part (name (embeddingProvider svc)) 1) = Some sourceEmbedding \<longrightarrow>
      findSimilarToMemory cos_similarity svc memoryId options
        = searchSimilar cos_similarity
            (svc\<lparr>db := (db svc)\<lparr>getMemoriesWithEmbeddings :=
                      (\<lambda>p m. filter (\<lambda>item. memory_id (fst item) \<noteq> memoryId)
                                (getMemoriesWithEmbeddings (db svc) p m))\<rparr>,
                  embeddingProvider := (embeddingProvider svc)\<lparr>generateEmbedding :=
                      (\<lambda>q. Inr sourceEmbedding)\<rparr>\<rparr>)
            query
            (options\<lparr>opt_limit := Some (case opt_limit options of None \<Rightarrow> 5 | Some l \<Rightarrow> l),
                     opt_includeEmbeddings := Some True\<rparr>) \<and>
      (\<exists>results. findSimilarToMemory cos_similarity svc memoryId options = Inr results \<and>
         (\<forall>r \<in> set results. memory_id (memory r) \<noteq> memoryId)))"
proof (intro conjI allI impI)
  assume "getEmbedding (db svc) memoryId (name_part (name (embeddingProvider svc)) 0)
       (name_part (name (embeddingProvider svc)) 1) = None"
  then show "findSimilarToMemory cos_similarity svc memoryId options
        = Inl (EmbeddingNotFound memoryId)"
    by (simp add: findSimilarToMemory_def)
next
  fix sourceEmbedding
  assume src: "getEmbedding (db svc) memoryId (name_part (name (embeddingProvider svc)) 0)
        (name_part (name (embeddingProvider svc)) 1) = Some sourceEmbedding"
  then show "findSimilarToMemory cos_similarity svc memoryId options
        = searchSimilar cos_similarity
            (svc\<lparr>db := (db svc)\<lparr>getMemoriesWithEmbeddings :=
                      (\<lambda>p m. filter (\<lambda>item. memory_id (fst item) \<noteq> memoryId)
                                (getMemoriesWithEmbeddings (db svc) p m))\<rparr>,
                  embeddingProvider := (embeddingProvider svc)\<lparr>generateEmbedding :=
                      (\<lambda>q. Inr sourceEmbedding)\<rparr>\<rparr>)
            query
            (options\<lparr>opt_limit := Some (case opt_limit options of None \<Rightarrow> 5 | Some l \<Rightarrow> l),
                     opt_includeEmbeddings := Some True\<rparr>)"
    by (simp add: findSimilarToMemory_def searchSimilar_def)
next
  fix sourceEmbedding
  assume src: "getEmbedding (db svc) memoryId (name_part (name (embeddingProvider svc)) 0)
        (name_part (name (embeddingProvider svc)) 1) = Some sourceEmbedding"
  let ?cands = "filter (\<lambda>item. case opt_category options of
                              None \<Rightarrow> True | Some c \<Rightarrow> c = [] \<or> category (fst item) = c)
      (filter (\<lambda>item. memory_id (fst item) \<noteq> memoryId)
         (getMemoriesWithEmbeddings (db svc) (name_part (name (embeddingProvider svc)) 0)
            (name_part (name (embeddingProvider svc)) 1)))"
  let ?mk = "\<lambda>item. \<lparr>memory = fst item, similarity = cos_similarity sourceEmbedding (snd item),
                     embedding = snd item\<rparr>"
  let ?m = "case opt_minSimilarity options of None \<Rightarrow> Num 0.7 | Some m \<Rightarrow> m"
  let ?F = "filter (\<lambda>result. js_ge (similarity result) ?m) (map ?mk ?cands)"
  let ?S = "js_sort (\<lambda>a b. js_sub (similarity b) (similarity a)) ?F"
  let ?R = "js_slice0 (case opt_limit options of None \<Rightarrow> 5 | Some l \<Rightarrow> l) ?S"
  have eq: "findSimilarToMemory cos_similarity svc memoryId options = Inr ?R"
    using src by (simp add: findSimilarToMemory_def category_filter_eq)
  have nn: "\<forall>y \<in> set ?F. similarity y \<noteq> NaN"
    by (auto dest: js_ge_not_NaN)
  have "set ?R \<subseteq> set ?S"
    by (rule set_mono_prefix [OF js_slice0_prefix])
  also have "set ?S = set ?F"
    using nn by (rule js_sort_set)
  finally have "\<forall>r \<in> set ?R. memory_id (memory r) \<noteq> memoryId"
    by auto
  with eq show "\<exists>results. findSimilarToMemory cos_similarity svc memoryId options = Inr results \<and>
         (\<forall>r \<in> set results. memory_id (memory r) \<noteq> memoryId)"
    by blast
qed

theorem findSimilarToMemory_behaviour_witness:
  "findSimilarToMemory example_cos example_service ''zz'' example_options
     = Inl (EmbeddingNotFound ''zz'') \<and>
   (\<exists>results. findSimilarToMemory example_cos example_service ''a'' example_options = Inr results \<and>
      map (\<lambda>r. memory_id (memory r)) results = [''c''])"
proof -
  have none: "getEmbedding (db example_service) ''zz''
      (name_part (name (embeddingProvider example_service)) 0)
      (name_part (name (embeddingProvider example_service)) 1) = None"
    by (simp add: example_service_def example_rows_def example_memory_def)
  have some: "getEmbedding (db example_service) ''a''
      (name_part (name (embeddingProvider example_service)) 0)
      (name_part (name (embeddingProvider example_service)) 1) = Some [Num 1, Num 0]"
    by (simp add: example_service_def example_rows_def example_memory_def)
  have eq: "findSimilarToMemory example_cos example_service ''a'' example_options
      = Inr [\<lparr>memory = example_memory ''c'' ''goals'' 10, similarity = Num 1,
               embedding = [Num 1, Num 0]\<rparr>]"
    by (simp add: findSimilarToMemory_def example_service_def example_options_def
        example_rows_def example_cos_def example_memory_def js_sort_def js_slice0_def)
  from findSimilarToMemory_behaviour [of example_service "''zz''" example_cos example_options]
    findSimilarToMemory_behaviour [of example_service "''a''" example_cos example_options]
    none some eq
  show ?thesis
    by (simp add: example_memory_def)
qed

subsection \<open>The batch coalescer\<close>

lemma MemoryEmbeddingCache_set_stores:
  "map_of (cache_map (MemoryEmbeddingCache_set now key emb c)) key
     = Some \<lparr>entry_embedding = emb, timestamp = now\<rparr>"
  by (simp add: MemoryEmbeddingCache_set_def Let_def update_conv')

lemma setCachedEmbedding_fields:
  "config (setCachedEmbedding now txt emb p) = config p"
  "batchQueue (setCachedEmbedding now txt emb p) = batchQueue p"
  "processingBatch (setCachedEmbedding now txt emb p) = processingBatch p"
  "(cache (setCachedEmbedding now txt emb p) = None) = (cache p = None)"
  by (simp_all add: setCachedEmbedding_def split: option.splits)

lemma setCachedEmbedding_stores:
  "cache p \<noteq> None \<Longrightarrow>
   \<exists>c. cache (setCachedEmbedding now txt emb p) = Some c \<and>
       map_of (cache_map c) (getCacheKey (config p) txt)
         = Some \<lparr>entry_embedding = emb, timestamp = now\<rparr>"
  by (auto simp: setCachedEmbedding_def MemoryEmbeddingCache_set_stores)

lemma forEach_resolve_fields:
  "config (fst (forEach_resolve clock embs items index p)) = config p \<and>
   batchQueue (fst (forEach_resolve clock embs items index p)) = batchQueue p \<and>
   processingBatch (fst (forEach_resolve clock embs items index p)) = processingBatch p \<and>
   ((cache (fst (forEach_resolve clock embs items index p)) = None) = (cache p = None))"
  by (induction items arbitrary: index p) (simp_all add: Let_def setCachedEmbedding_fields)

lemma forEach_resolve_settlements:
  "snd (forEach_resolve clock embs items index p)
     = map (\<lambda>i. Resolved (handle (items ! i)) (embs ! (index + i))) [0..<length items]"
proof (induction items arbitrary: index p)
  case Nil
  then show ?case by simp
next
  case (Cons item rest)
  have "map (\<lambda>i. Resolved (handle ((item # rest) ! i)) (embs ! (index + i))) [0..<length (item # rest)]
      = Resolved (handle item) (embs ! index)
        # map (\<lambda>i. Resolved (handle (rest ! i)) (embs ! (Suc index + i))) [0..<length rest]"
    by (simp add: upt_conv_Cons map_Suc_upt [symmetric] del: upt_Suc)
  with Cons show ?case by (simp add: Let_def)
qed

lemma forEach_resolve_snoc:
  "fst (forEach_resolve clock embs (items @ [item]) index p)
     = setCachedEmbedding (clock (index + length items)) (req_text item)
         (embs ! (index + length items)) (fst (forEach_resolve clock embs items index p))"
  by (induction items arbitrary: index p) (simp_all add: Let_def)

lemma forEach_resolve_written:
  assumes "cache p \<noteq> None" and "i < length items"
  shows "\<exists>c. cache (fst (forEach_resolve clock embs (take (Suc i) items) 0 p)) = Some c \<and>
       map_of (cache_map c) (getCacheKey (config p) (req_text (items ! i)))
         = Some \<lparr>entry_embedding = embs ! i, timestamp = clock i\<rparr>"
proof -
  let ?q = "fst (forEach_resolve clock embs (take i items) 0 p)"
  have tk: "take (Suc i) items = take i items @ [items ! i]"
    using assms(2) by (rule take_Suc_conv_app_nth)
  have len: "length (take i items) = i" using assms(2) by simp
  have q: "cache ?q \<noteq> None" "config ?q = config p"
    using assms(1) forEach_resolve_fields [of clock embs "take i items" 0 p] by simp_all
  from setCachedEmbedding_stores [OF q(1), of "clock i" "req_text (items ! i)" "embs ! i"]
  show ?thesis
    unfolding tk forEach_resolve_snoc len q(2) by simp
qed

lemma length_AList_update: "length (AList.update k v al) \<le> Suc (length al)"
  by (induction al) auto

lemma MemoryEmbeddingCache_set_room:
  assumes "int (length (cache_map c)) < maxSize c"
  shows "cache_map (MemoryEmbeddingCache_set now key emb c)
           = AList.update key \<lparr>entry_embedding = emb, timestamp = now\<rparr> (cache_map c)"
    and "maxSize (MemoryEmbeddingCache_set now key emb c) = maxSize c"
    and "int (length (cache_map (MemoryEmbeddingCache_set now key emb c)))
           \<le> int (length (cache_map c)) + 1"
  using assms length_AList_update [of key "\<lparr>entry_embedding = emb, timestamp = now\<rparr>" "cache_map c"]
  by (simp_all add: MemoryEmbeddingCache_set_def)

lemma getCacheKey_text_inj: "getCacheKey cfg t1 = getCacheKey cfg t2 \<longleftrightarrow> t1 = t2"
  by (simp add: getCacheKey_def)

lemma forEach_resolve_cache:
  "cache p = Some c \<Longrightarrow>
   cache (fst (forEach_resolve clock embs items index p))
     = Some (fold (\<lambda>(i, item). MemoryEmbeddingCache_set (clock i)
                     (getCacheKey (config p) (req_text item)) (embs ! i))
               (enumerate index items) c)"
proof (induction items arbitrary: index p c)
  case Nil
  then show ?case by simp
next
  case (Cons item rest)
  let ?p1 = "setCachedEmbedding (clock index) (req_text item) (embs ! index) p"
  let ?c1 = "MemoryEmbeddingCache_set (clock index) (getCacheKey (config p) (req_text item))
      (embs ! index) c"
  from Cons.prems have c1: "cache ?p1 = Some ?c1" and cfg: "config ?p1 = config p"
    by (simp_all add: setCachedEmbedding_def)
  from Cons.IH [OF c1, of "Suc index"] cfg show ?case
    by (simp add: Let_def)
qed

lemma cache_writes_keep_other:
  assumes "int (length (cache_map c)) + int (length items) \<le> maxSize c"
    and "\<forall>item \<in> set items. req_text item \<noteq> t"
  shows "map_of (cache_map (fold (\<lambda>(i, item). MemoryEmbeddingCache_set (clock i)
                     (getCacheKey cfg (req_text item)) (embs ! i))
               (enumerate n items) c)) (getCacheKey cfg t)
         = map_of (cache_map c) (getCacheKey cfg t)"
  using assms
proof (induction items arbitrary: n c)
  case Nil
  then show ?case by simp
next
  case (Cons item rest)
  let ?c1 = "MemoryEmbeddingCache_set (clock n) (getCacheKey cfg (req_text item)) (embs ! n) c"
  from Cons.prems(1) have room: "int (length (cache_map c)) < maxSize c" by simp
  note r = MemoryEmbeddingCache_set_room [OF room, of "clock n" "getCacheKey cfg (req_text item)" "embs ! n"]
  from Cons.prems(1) r(2,3) have room1: "int (length (cache_map ?c1)) + int (length rest) \<le> maxSize ?c1"
    by simp
  from Cons.prems(2) have other: "\<forall>item \<in> set rest. req_text item \<noteq> t" and ne: "req_text item \<noteq> t"
    by simp_all
  have "map_of (cache_map ?c1) (getCacheKey cfg t) = map_of (cache_map c) (getCacheKey cfg t)"
    using ne by (simp add: r(1) update_conv' getCacheKey_text_inj)
  with Cons.IH [OF room1 other, of "Suc n"] show ?case by simp
qed

lemma cache_writes_lookup:
  assumes "int (length (cache_map c)) + int (length items) \<le> maxSize c"
    and "i < length items"
    and "\<forall>j. i < j \<and> j < length items \<longrightarrow> req_text (items ! j) \<noteq> req_text (items ! i)"
  shows "map_of (cache_map (fold (\<lambda>(i, item). MemoryEmbeddingCache_set (clock i)
                     (getCacheKey cfg (req_text item)) (embs ! i))
               (enumerate n items) c)) (getCacheKey cfg (req_text (items ! i)))
         = Some \<lparr>entry_embedding = embs ! (n + i), timestamp = clock (n + i)\<rparr>"
  using assms
proof (induction items arbitrary: n c i)
  case Nil
  then show ?case by simp
next
  case (Cons item rest)
  let ?c1 = "MemoryEmbeddingCache_set (clock n) (getCacheKey cfg (req_text item)) (embs ! n) c"
  from Cons.prems(1) have room: "int (length (cache_map c)) < maxSize c" by simp
  note r = MemoryEmbeddingCache_set_room [OF room, of "clock n" "getCacheKey cfg (req_text item)" "embs ! n"]
  from Cons.prems(1) r(2,3) have room1: "int (length (cache_map ?c1)) + int (length rest) \<le> maxSize ?c1"
    by simp
  show ?case
  proof (cases i)
    case 0
    have "\<forall>x \<in> set rest. req_text x \<noteq> req_text item"
    proof
      fix x assume "x \<in> set rest"
      then obtain j where "j < length rest" "rest ! j = x" by (auto simp: in_set_conv_nth)
      with Cons.prems(3) [rule_format, of "Suc j"] 0 show "req_text x \<noteq> req_text item" by simp
    qed
    from cache_writes_keep_other [OF room1 this, of clock cfg embs "Suc n"] 0 show ?thesis
      by (simp add: MemoryEmbeddingCache_set_stores)
  next
    case (Suc i')
    with Cons.prems(2) have lt: "i' < length rest" by simp
    have later: "\<forall>j. i' < j \<and> j < length rest \<longrightarrow> req_text (rest ! j) \<noteq> req_text (rest ! i')"
    proof (intro allI impI)
      fix j assume "i' < j \<and> j < length rest"
      with Cons.prems(3) [rule_format, of "Suc j"] Suc show "req_text (rest ! j) \<noteq> req_text (rest ! i')"
        by simp
    qed
    from Cons.IH [OF room1 lt later, of "Suc n"] Suc show ?thesis by simp
  qed
qed

text \<open>
  C1, as stated, fails where it says that the vector is written into the cache. A provider
  whose configuration leaves \<open>cacheEnabled\<close> unset has no cache: the batch of two is
  taken from the head of the queue and both requests are resolved with their vectors, but
  nothing is cached.
\<close>

theorem processBatch_cache_disabled:
  "processBatch_after_sleep (\<lambda>k texts. Inr \<lparr>embeddings = Some [[Num 1], [Num 0]]\<rparr>) (\<lambda>i. 0)
      ((OllamaEmbeddingProvider_new (example_config None))\<lparr>batchQueue := example_queue\<rparr>)
    = ((OllamaEmbeddingProvider_new (example_config None))
          \<lparr>batchQueue := [\<lparr>req_text = ''three'', handle = 3\<rparr>]\<rparr>,
       [Resolved 1 [Num 1], Resolved 2 [Num 0]], True) \<and>
   cache ((OllamaEmbeddingProvider_new (example_config None))
          \<lparr>batchQueue := [\<lparr>req_text = ''three'', handle = 3\<rparr>]\<rparr>) = None"
  by (simp add: processBatch_after_sleep_def generateBatchEmbeddingsInternal_def
      OllamaEmbeddingProvider_new_def example_config_def example_queue_def
      setCachedEmbedding_def Let_def)

text \<open>
  C1, amended. A dispatch removes the first \<open>batchSize\<close> requests (all of them when
  fewer are queued) from the head of the queue. When the provider call succeeds, the request
  at position \<open>i\<close> of the batch is resolved with the returned vector at position \<open>i\<close>,
  no request is rejected, and, when the provider has a cache, every vector is written into
  it: the cache of the provider after the dispatch is its cache before, with \<open>set\<close> applied
  for each request of the batch in order, under the key of the request's text. The vector
  of request \<open>i\<close> is in the cache under that key once request \<open>i\<close> has been handled,
  and it is there after the dispatch when the cache has room for the batch (so that no
  write of the batch evicts an entry) and no later request of the batch has the same text.
  When the provider call fails with \<open>e\<close>, every request of the batch is rejected with
  \<open>e\<close>, none is resolved, and the cache is unchanged.
\<close>

theorem processBatch_resolves:
  assumes "batchQueue p \<noteq> []"
    and "n = nat (case batchSize (config p) of None \<Rightarrow> 32 | Some b \<Rightarrow> if b = 0 then 32 else b)"
    and "currentBatch = take n (batchQueue p)"
    and "processBatch_after_sleep ollama_embed clock p = (p', out, again)"
  shows "length currentBatch \<le> n \<and> batchQueue p = currentBatch @ batchQueue p' \<and>
    (\<forall>embs. generateBatchEmbeddingsInternal (ollama_embed 0) (map req_text currentBatch) = Inr embs \<longrightarrow>
       length embs = length currentBatch \<and>
       out = map (\<lambda>i. Resolved (handle (currentBatch ! i)) (embs ! i)) [0..<length currentBatch] \<and>
       (\<forall>c0. cache p = Some c0 \<longrightarrow>
          cache p' = Some (fold (\<lambda>(i, item). MemoryEmbeddingCache_set (clock i)
                                   (getCacheKey (config p) (req_text item)) (embs ! i))
                             (enumerate 0 currentBatch) c0) \<and>
          (\<forall>i < length currentBatch.
             (\<exists>c. cache (fst (forEach_resolve clock embs (take (Suc i) currentBatch) 0
                     (p\<lparr>processingBatch := True, batchQueue := drop n (batchQueue p)\<rparr>))) = Some c \<and>
                 map_of (cache_map c) (getCacheKey (config p) (req_text (currentBatch ! i)))
                   = Some \<lparr>entry_embedding = embs ! i, timestamp = clock i\<rparr>) \<and>
             (int (length (cache_map c0)) + int (length currentBatch) \<le> maxSize c0 \<and>
              (\<forall>j. i < j \<and> j < length currentBatch \<longrightarrow>
                   req_text (currentBatch ! j) \<noteq> req_text (currentBatch ! i)) \<longrightarrow>
              (\<exists>c'. cache p' = Some c' \<and>
                 map_of (cache_map c') (getCacheKey (config p) (req_text (currentBatch ! i)))
                   = Some \<lparr>entry_embedding = embs ! i, timestamp = clock i\<rparr>))))) \<and>
    (\<forall>e. generateBatchEmbeddingsInternal (ollama_embed 0) (map req_text currentBatch) = Inl e \<longrightarrow>
       out = map (\<lambda>item. Rejected (handle item) e) currentBatch \<and> cache p' = cache p)"
proof (intro conjI allI impI)
  let ?p1 = "p\<lparr>processingBatch := True, batchQueue := drop n (batchQueue p)\<rparr>"
  show "length currentBatch \<le> n" using assms(3) by simp
  show "batchQueue p = currentBatch @ batchQueue p'"
    using assms forEach_resolve_fields [of clock _ currentBatch 0 ?p1]
    by (auto simp: processBatch_after_sleep_def Let_def split: sum.splits)
  {
    fix embs
    assume ok: "generateBatchEmbeddingsInternal (ollama_embed 0) (map req_text currentBatch) = Inr embs"
    then show "length embs = length currentBatch"
      by (auto simp: generateBatchEmbeddingsInternal_def split: sum.splits option.splits if_splits)
    from assms ok have "out = snd (forEach_resolve clock embs currentBatch 0 ?p1)"
      by (auto simp: processBatch_after_sleep_def Let_def)
    then show "out = map (\<lambda>i. Resolved (handle (currentBatch ! i)) (embs ! i)) [0..<length currentBatch]"
      by (simp add: forEach_resolve_settlements)
    from assms ok have after: "cache p' = cache (fst (forEach_resolve clock embs currentBatch 0 ?p1))"
      by (auto simp: processBatch_after_sleep_def Let_def)
    {
      fix c0
      assume c0: "cache p = Some c0"
      then have "cache ?p1 = Some c0" by simp
      from forEach_resolve_cache [OF this, of clock embs currentBatch 0] after
      show final: "cache p' = Some (fold (\<lambda>(i, item). MemoryEmbeddingCache_set (clock i)
                                   (getCacheKey (config p) (req_text item)) (embs ! i))
                             (enumerate 0 currentBatch) c0)"
        by simp
      {
        fix i
        assume i: "i < length currentBatch"
        with c0 show "\<exists>c. cache (fst (forEach_resolve clock embs (take (Suc i) currentBatch) 0 ?p1)) = Some c \<and>
                 map_of (cache_map c) (getCacheKey (config p) (req_text (currentBatch ! i)))
                   = Some \<lparr>entry_embedding = embs ! i, timestamp = clock i\<rparr>"
          using forEach_resolve_written [of ?p1 i currentBatch clock embs] by simp
        assume "int (length (cache_map c0)) + int (length currentBatch) \<le> maxSize c0 \<and>
              (\<forall>j. i < j \<and> j < length currentBatch \<longrightarrow>
                   req_text (currentBatch ! j) \<noteq> req_text (currentBatch ! i))"
        then have room: "int (length (cache_map c0)) + int (length currentBatch) \<le> maxSize c0"
          and later: "\<forall>j. i < j \<and> j < length currentBatch \<longrightarrow>
                   req_text (currentBatch ! j) \<noteq> req_text (currentBatch ! i)"
          by simp_all
        from cache_writes_lookup [OF room i later, of clock "config p" embs 0] final
        show "\<exists>c'. cache p' = Some c' \<and>
                 map_of (cache_map c') (getCacheKey (config p) (req_text (currentBatch ! i)))
                   = Some \<lparr>entry_embedding = embs ! i, timestamp = clock i\<rparr>"
          by simp
      }
    }
  }
  {
    fix e
    assume err: "generateBatchEmbeddingsInternal (ollama_embed 0) (map req_text currentBatch) = Inl e"
    with assms show "out = map (\<lambda>item. Rejected (handle item) e) currentBatch"
      by (auto simp: processBatch_after_sleep_def Let_def)
    from assms err show "cache p' = cache p"
      by (auto simp: processBatch_after_sleep_def Let_def)
  }
qed

theorem processBatch_resolves_witness:
  "fst (snd (processBatch_after_sleep (\<lambda>k texts. Inr \<lparr>embeddings = Some [[Num 1], [Num 0]]\<rparr>)
      (\<lambda>i. 5) (example_provider (Some True))))
     = [Resolved 1 [Num 1], Resolved 2 [Num 0]] \<and>
   batchQueue (fst (processBatch_after_sleep (\<lambda>k texts. Inr \<lparr>embeddings = Some [[Num 1], [Num 0]]\<rparr>)
      (\<lambda>i. 5) (example_provider (Some True))))
     = [\<lparr>req_text = ''three'', handle = 3\<rparr>] \<and>
   (\<exists>c. cache (fst (processBatch_after_sleep (\<lambda>k texts. Inr \<lparr>embeddings = Some [[Num 1], [Num 0]]\<rparr>)
      (\<lambda>i. 5) (example_provider (Some True)))) = Some c \<and>
      map_of (cache_map c) ''ollama:nomic-embed-text:one''
        = Some \<lparr>entry_embedding = [Num 1], timestamp = 5\<rparr> \<and>
      map_of (cache_map c) ''ollama:nomic-embed-text:two''
        = Some \<lparr>entry_embedding = [Num 0], timestamp = 5\<rparr>) \<and>
   fst (snd (processBatch_after_sleep (\<lambda>k texts. Inl BatchRequestTimeout)
      (\<lambda>i. 5) (example_provider (Some True))))
     = [Rejected 1 BatchRequestTimeout, Rejected 2 BatchRequestTimeout]"
proof -
  let ?ok = "\<lambda>(k::nat) (texts::string list). (Inr \<lparr>embeddings = Some [[Num 1], [Num 0]]\<rparr> :: error + EmbedResponse)"
  let ?bad = "\<lambda>(k::nat) (texts::string list). (Inl BatchRequestTimeout :: error + EmbedResponse)"
  let ?p = "example_provider (Some True)"
  let ?b = "[\<lparr>req_text = ''one'', handle = 1\<rparr>, \<lparr>req_text = ''two'', handle = 2\<rparr>]"
  have ne: "batchQueue ?p \<noteq> []"
    by (simp add: example_provider_def example_queue_def)
  have n: "(2::nat) = nat (case batchSize (config ?p) of None \<Rightarrow> 32 | Some b \<Rightarrow> if b = 0 then 32 else b)"
    by (simp add: example_provider_def OllamaEmbeddingProvider_new_def example_config_def)
  have b: "?b = take 2 (batchQueue ?p)"
    by (simp add: example_provider_def example_queue_def)
  have ok: "generateBatchEmbeddingsInternal (?ok 0) (map req_text ?b) = Inr [[Num 1], [Num 0]]"
    by (simp add: generateBatchEmbeddingsInternal_def)
  have bad: "generateBatchEmbeddingsInternal (?bad 0) (map req_text ?b) = Inl BatchRequestTimeout"
    by (simp add: generateBatchEmbeddingsInternal_def)
  have c0: "cache ?p = Some MemoryEmbeddingCache_new"
    by (simp add: example_provider_def OllamaEmbeddingProvider_new_def example_config_def)
  have room: "int (length (cache_map MemoryEmbeddingCache_new)) + int (length ?b)
      \<le> maxSize MemoryEmbeddingCache_new"
    by (simp add: MemoryEmbeddingCache_new_def)
  have k1: "getCacheKey (config ?p) (req_text (?b ! 0)) = ''ollama:nomic-embed-text:one''"
    and k2: "getCacheKey (config ?p) (req_text (?b ! 1)) = ''ollama:nomic-embed-text:two''"
    by (simp_all add: getCacheKey_def example_provider_def OllamaEmbeddingProvider_new_def
        example_config_def)
  have e1: "processBatch_after_sleep ?ok (\<lambda>i. 5) ?p
      = (fst (processBatch_after_sleep ?ok (\<lambda>i. 5) ?p),
         fst (snd (processBatch_after_sleep ?ok (\<lambda>i. 5) ?p)),
         snd (snd (processBatch_after_sleep ?ok (\<lambda>i. 5) ?p)))"
    by simp
  have e2: "processBatch_after_sleep ?bad (\<lambda>i. 5) ?p
      = (fst (processBatch_after_sleep ?bad (\<lambda>i. 5) ?p),
         fst (snd (processBatch_after_sleep ?bad (\<lambda>i. 5) ?p)),
         snd (snd (processBatch_after_sleep ?bad (\<lambda>i. 5) ?p)))"
    by simp
  note T = processBatch_resolves [OF ne n b e1]
  from T ok
  have r1: "fst (snd (processBatch_after_sleep ?ok (\<lambda>i. 5) ?p)) = [Resolved 1 [Num 1], Resolved 2 [Num 0]]"
    and q1: "batchQueue ?p = ?b @ batchQueue (fst (processBatch_after_sleep ?ok (\<lambda>i. 5) ?p))"
    by (simp_all add: upt_conv_Cons)
  from T ok c0 have C: "\<forall>i < length ?b.
      (int (length (cache_map MemoryEmbeddingCache_new)) + int (length ?b)
           \<le> maxSize MemoryEmbeddingCache_new \<and>
         (\<forall>j. i < j \<and> j < length ?b \<longrightarrow> req_text (?b ! j) \<noteq> req_text (?b ! i)) \<longrightarrow>
       (\<exists>c'. cache (fst (processBatch_after_sleep ?ok (\<lambda>i. 5) ?p)) = Some c' \<and>
          map_of (cache_map c') (getCacheKey (config ?p) (req_text (?b ! i)))
            = Some \<lparr>entry_embedding = [[Num 1], [Num 0]] ! i, timestamp = 5\<rparr>))"
    by blast
  have l1: "\<forall>j. 0 < j \<and> j < length ?b \<longrightarrow> req_text (?b ! j) \<noteq> req_text (?b ! 0)"
    by (auto simp: less_Suc_eq)
  have l2: "\<forall>j. 1 < j \<and> j < length ?b \<longrightarrow> req_text (?b ! j) \<noteq> req_text (?b ! 1)"
    by auto
  from C [rule_format, of 0] room l1 k1
  have w1: "\<exists>c'. cache (fst (processBatch_after_sleep ?ok (\<lambda>i. 5) ?p)) = Some c' \<and>
      map_of (cache_map c') ''ollama:nomic-embed-text:one''
        = Some \<lparr>entry_embedding = [Num 1], timestamp = 5\<rparr>"
    by simp
  from C [rule_format, of 1] room l2 k2
  have w2: "\<exists>c'. cache (fst (processBatch_after_sleep ?ok (\<lambda>i. 5) ?p)) = Some c' \<and>
      map_of (cache_map c') ''ollama:nomic-embed-text:two''
        = Some \<lparr>entry_embedding = [Num 0], timestamp = 5\<rparr>"
    by simp
  from processBatch_resolves [OF ne n b e2] bad
  have r2: "fst (snd (processBatch_after_sleep ?bad (\<lambda>i. 5) ?p))
      = [Rejected 1 BatchRequestTimeout, Rejected 2 BatchRequestTimeout]"
    by simp
  from q1 have "batchQueue (fst (processBatch_after_sleep ?ok (\<lambda>i. 5) ?p)) = [\<lparr>req_text = ''three'', handle = 3\<rparr>]"
    by (simp add: example_provider_def example_queue_def)
  with r1 r2 w1 w2 show ?thesis by auto
qed

text \<open>
  C4 does not hold of \<open>processBatch\<close>: it calls \<open>generateBatchEmbeddingsInternal\<close>
  once, outside \<open>retryWithBackoff\<close>. When the Ollama client rejects the first request and
  would answer the second, the two queued requests are rejected with the error of that
  first request, although the configuration asks for three attempts; the same call under
  \<open>retryWithBackoff\<close>, as \<open>generateBatchEmbeddings\<close> makes it, succeeds at its second
  attempt.
\<close>

theorem processBatch_does_not_retry:
  "fst (snd (processBatch_after_sleep example_busy_once (\<lambda>i. 5) (example_provider (Some True))))
     = [Rejected 1 (ProviderError ''busy''), Rejected 2 (ProviderError ''busy'')] \<and>
   maxRetries (config (example_provider (Some True))) = Some 3 \<and>
   outcome (retryWithBackoff (\<lambda>k. generateBatchEmbeddingsInternal (example_busy_once k) [''one'', ''two''])
      (Some 3) None) = Inr [[Num 3], [Num 3]] \<and>
   calls (retryWithBackoff (\<lambda>k. generateBatchEmbeddingsInternal (example_busy_once k) [''one'', ''two''])
      (Some 3) None) = 2"
  by (simp add: processBatch_after_sleep_def generateBatchEmbeddingsInternal_def
      example_busy_once_def example_provider_def OllamaEmbeddingProvider_new_def
      example_config_def example_queue_def retryWithBackoff_def retry_loop.simps Let_def)

subsection \<open>Clustering\<close>

lemma cluster_scan_inv:
  "scan_inv (memory_id (fst item)) P0 st \<Longrightarrow>
   scan_inv (memory_id (fst item)) P0 (cluster_scan cos_similarity threshold item others st)"
proof (induction others arbitrary: st)
  case Nil
  then show ?case by simp
next
  case (Cons other rest)
  obtain members tot processed where st: "st = (members, tot, processed)"
    by (cases st) auto
  show ?case
  proof (cases "memory_id (fst other) = memory_id (fst item) \<or> memory_id (fst other) \<in> processed")
    case True
    with Cons st show ?thesis by auto
  next
    case False
    show ?thesis
    proof (cases "js_ge (cos_similarity (snd item) (snd other)) threshold")
      case no: False
      with False Cons st show ?thesis by (auto simp: Let_def)
    next
      case yes: True
      then obtain y where y: "cos_similarity (snd item) (snd other) = Num y"
        by (cases "cos_similarity (snd item) (snd other)") auto
      let ?new = "\<lparr>memory = fst other, similarity = Num y, embedding = snd other\<rparr>"
      from Cons.prems st have inv: "scan_inv (memory_id (fst item)) P0 (members, tot, processed)"
        by simp
      then have ne: "members \<noteq> []" by (simp add: scan_inv_def)
      then have ids: "result_ids members = memory_id (fst item) # result_ids (tl members)"
        using inv by (cases members) (auto simp: scan_inv_def result_ids_def)
      have "scan_inv (memory_id (fst item)) P0
          (members @ [?new], js_add tot (Num y), insert (memory_id (fst other)) processed)"
        using inv False ne ids
        by (auto simp: scan_inv_def result_ids_def)
      from Cons.IH [OF this] False yes y st show ?thesis
        by (simp add: Let_def)
    qed
  qed
qed

lemma cluster_loop_inv:
  assumes "distinct (concat (map (\<lambda>c. result_ids (cluster c)) clusters))"
    and "set (concat (map (\<lambda>c. result_ids (cluster c)) clusters)) \<subseteq> processed"
    and "\<forall>c \<in> set clusters. good_cluster m c"
  shows "distinct (concat (map (\<lambda>c. result_ids (cluster c))
            (cluster_loop cos_similarity threshold m every items (clusters, processed)))) \<and>
         (\<forall>c \<in> set (cluster_loop cos_similarity threshold m every items (clusters, processed)).
            good_cluster m c)"
  using assms
proof (induction items arbitrary: clusters processed)
  case Nil
  then show ?case by simp
next
  case (Cons item rest)
  show ?case
  proof (cases "memory_id (fst item) \<in> processed")
    case True
    with Cons show ?thesis by simp
  next
    case False
    let ?s = "memory_id (fst item)"
    let ?seed = "\<lparr>memory = fst item, similarity = Num 1, embedding = snd item\<rparr>"
    let ?scanned = "cluster_scan cos_similarity threshold item every ([?seed], Num 1, processed)"
    obtain members tot processed1 where sc: "?scanned = (members, tot, processed1)"
      by (cases ?scanned) auto
    have "scan_inv ?s processed ([?seed], Num 1, processed)"
      using False by (simp add: scan_inv_def result_ids_def)
    then have "scan_inv ?s processed ?scanned" by (rule cluster_scan_inv)
    with sc have inv: "scan_inv ?s processed (members, tot, processed1)" by simp
    then have ne: "members \<noteq> []" by (simp add: scan_inv_def)
    from inv ne have ids: "result_ids members = ?s # result_ids (tl members)"
      by (cases members) (auto simp: scan_inv_def result_ids_def)
    from inv have tl: "set (result_ids (tl members)) \<inter> processed = {}"
      and p1: "processed1 = processed \<union> set (result_ids (tl members))"
      and dist: "distinct (result_ids members)"
      and tot: "tot = Num (sum_list (map (\<lambda>r. num_of (similarity r)) members))"
      and hd1: "similarity (hd members) = Num 1"
      and nn: "\<forall>r \<in> set members. similarity r \<noteq> NaN"
      by (simp_all add: scan_inv_def)
    have fresh: "set (result_ids members) \<inter> processed = {}"
      using ids tl False by auto
    let ?c = "\<lparr>cluster = members, avgSimilarity = js_div_count tot (length members)\<rparr>"
    let ?clusters1 = "if int (length members) \<ge> m then clusters @ [?c] else clusters"
    let ?processed2 = "insert ?s processed1"
    have d1: "distinct (concat (map (\<lambda>c. result_ids (cluster c)) ?clusters1))"
      using Cons.prems(1,2) dist fresh by auto
    have s1: "set (concat (map (\<lambda>c. result_ids (cluster c)) ?clusters1)) \<subseteq> ?processed2"
      using Cons.prems(2) p1 ids by auto
    have g1: "\<forall>c \<in> set ?clusters1. good_cluster m c"
      using Cons.prems(3) ne hd1 nn tot by (auto simp: good_cluster_def mean_similarity_def)
    from Cons.IH [OF d1 s1 g1] False sc show ?thesis
      by (cases "m \<le> int (length members)") (simp_all add: Let_def)
  qed
qed

lemma distinct_concat_nth_disjoint:
  "distinct (concat xss) \<Longrightarrow> i < j \<Longrightarrow> j < length xss \<Longrightarrow> set (xss ! i) \<inter> set (xss ! j) = {}"
proof (induction xss arbitrary: i j)
  case Nil
  then show ?case by simp
next
  case (Cons xs xss)
  from Cons.prems(2) obtain j' where j: "j = Suc j'" by (cases j) auto
  show ?case
  proof (cases i)
    case 0
    from Cons.prems(3) j have "xss ! j' \<in> set xss" by simp
    then have "set (xss ! j') \<subseteq> set (concat xss)" by auto
    with Cons.prems(1) 0 j show ?thesis by auto
  next
    case (Suc i')
    with Cons j show ?thesis by simp
  qed
qed

lemma distinct_concat_mset:
  assumes "mset ys = mset xs" and "distinct (concat (map f xs))"
  shows "distinct (concat (map f ys))"
proof -
  have "mset (concat (map f ys)) = sum_mset (image_mset (\<lambda>x. mset (f x)) (mset ys))"
    by (simp add: mset_concat sum_mset_sum_list [symmetric] comp_def)
  also have "\<dots> = sum_mset (image_mset (\<lambda>x. mset (f x)) (mset xs))"
    by (simp add: assms(1))
  also have "\<dots> = mset (concat (map f xs))"
    by (simp add: mset_concat sum_mset_sum_list [symmetric] comp_def)
  finally show ?thesis
    using assms(2) mset_eq_imp_distinct_iff by blast
qed

text \<open>
  C5. The clusters that \<open>clusterMemories\<close> returns are pairwise disjoint: no memory id is
  in two of them (nor twice in one). Each has at least \<open>minClusterSize\<close> members, starts
  with its seed at similarity 1, records no \<open>NaN\<close>, and its \<open>avgSimilarity\<close> is the mean
  of the similarities recorded in it. The list is sorted by \<open>avgSimilarity\<close>, largest first.
\<close>

theorem clusterMemories_clusters:
  assumes "result = clusterMemories cos_similarity svc threshold minClusterSize"
    and "m = (case minClusterSize of None \<Rightarrow> 2 | Some k \<Rightarrow> k)"
  shows "(\<forall>i j. i < j \<and> j < length result \<longrightarrow>
            set (result_ids (cluster (result ! i))) \<inter> set (result_ids (cluster (result ! j))) = {}) \<and>
         (\<forall>c \<in> set result.
            distinct (result_ids (cluster c)) \<and> int (length (cluster c)) \<ge> m \<and>
            similarity (hd (cluster c)) = Num 1 \<and> (\<forall>r \<in> set (cluster c). similarity r \<noteq> NaN) \<and>
            avgSimilarity c = Num (mean_similarity (cluster c))) \<and>
         sorted_wrt (\<lambda>a b. js_ge (avgSimilarity a) (avgSimilarity b)) result"
proof -
  let ?t = "case threshold of None \<Rightarrow> Num 0.8 | Some t \<Rightarrow> t"
  let ?every = "getMemoriesWithEmbeddings (db svc)
      (name_part (name (embeddingProvider svc)) 0) (name_part (name (embeddingProvider svc)) 1)"
  let ?L = "cluster_loop cos_similarity ?t m ?every ?every ([], {})"
  have res: "result = js_sort (\<lambda>a b. js_sub (avgSimilarity b) (avgSimilarity a)) ?L"
    unfolding assms by (simp add: clusterMemories_def Let_def)
  have L: "distinct (concat (map (\<lambda>c. result_ids (cluster c)) ?L))"
    "\<forall>c \<in> set ?L. good_cluster m c"
    using cluster_loop_inv [of "[]" "{}" m cos_similarity ?t ?every ?every] by simp_all
  have nn: "\<forall>c \<in> set ?L. avgSimilarity c \<noteq> NaN"
    using L(2) by (auto simp: good_cluster_def)
  have set_eq: "set result = set ?L" and mset_eq: "mset result = mset ?L"
    unfolding res using nn by (rule js_sort_set, rule js_sort_mset)
  have sorted: "sorted_wrt (\<lambda>a b. js_ge (avgSimilarity a) (avgSimilarity b)) result"
    unfolding res using nn by (rule js_sort_sorted)
  have dist: "distinct (concat (map (\<lambda>c. result_ids (cluster c)) result))"
    using mset_eq L(1) by (rule distinct_concat_mset)
  have disj: "set (result_ids (cluster (result ! i))) \<inter> set (result_ids (cluster (result ! j))) = {}"
    if "i < j" "j < length result" for i j
    using distinct_concat_nth_disjoint [OF dist, of i j] that by simp
  have each: "distinct (result_ids (cluster c)) \<and> int (length (cluster c)) \<ge> m \<and>
            similarity (hd (cluster c)) = Num 1 \<and> (\<forall>r \<in> set (cluster c). similarity r \<noteq> NaN) \<and>
            avgSimilarity c = Num (mean_similarity (cluster c))"
    if "c \<in> set result" for c
  proof -
    from that set_eq L(2) have g: "good_cluster m c" by auto
    from that dist have "distinct (result_ids (cluster c))"
      by (auto simp: distinct_concat_iff)
    with g show ?thesis by (simp add: good_cluster_def)
  qed
  from disj each sorted show ?thesis by blast
qed

theorem clusterMemories_clusters_witness:
  "map (\<lambda>c. result_ids (cluster c)) (clusterMemories example_cos_graded example_cluster_service None None)
     = [[''a'', ''c''], [''b'', ''d'']] \<and>
   map avgSimilarity (clusterMemories example_cos_graded example_cluster_service None None)
     = [Num 1, Num 0.95] \<and>
   sorted_wrt (\<lambda>a b. js_ge (avgSimilarity a) (avgSimilarity b))
     (clusterMemories example_cos_graded example_cluster_service None None)"
proof -
  have eq: "clusterMemories example_cos_graded example_cluster_service None None
      = [\<lparr>cluster = [\<lparr>memory = example_memory ''a'' ''facts'' 30, similarity = Num 1,
                        embedding = [Num 1, Num 0]\<rparr>,
                      \<lparr>memory = example_memory ''c'' ''goals'' 10, similarity = Num 1,
                        embedding = [Num 1, Num 0]\<rparr>],
          avgSimilarity = Num 1\<rparr>,
         \<lparr>cluster = [\<lparr>memory = example_memory ''b'' ''facts'' 40, similarity = Num 1,
                        embedding = [Num 0, Num 1]\<rparr>,
                      \<lparr>memory = example_memory ''d'' ''facts'' 20, similarity = Num 0.9,
                        embedding = [Num 0, Num 2]\<rparr>],
          avgSimilarity = Num 0.95\<rparr>]"
    by (simp add: clusterMemories_def example_cluster_service_def example_cos_graded_def
        example_memory_def js_sort_def Let_def)
  from clusterMemories_clusters [OF refl refl,
      of example_cos_graded example_cluster_service None None]
  have "sorted_wrt (\<lambda>a b. js_ge (avgSimilarity a) (avgSimilarity b))
     (clusterMemories example_cos_graded example_cluster_service None None)"
    by blast
  with eq show ?thesis
    by (simp add: result_ids_def example_memory_def)
qed

subsection \<open>Hybrid search\<close>










lemma strictly_sorted_distinct:
  fixes sc :: "'a \<Rightarrow> real"
  shows "sorted_wrt (\<lambda>a b. sc a > sc b) xs \<Longrightarrow> distinct xs"
  by (induction xs) auto














end
